theory Spec2Isabelle
  imports Complex_Main
begin

section \<open>Conventions of the embedding\<close>

text \<open>
  The development embeds the spatio-temporal pipeline of \<^verbatim>\<open>SpatioTemporal/models.py\<close>
  and \<^verbatim>\<open>SpatioTemporal/spatio_temporal.py\<close>.

  \<^item> Python \<^verbatim>\<open>int\<close> is \<^typ>\<open>int\<close>; Python \<^verbatim>\<open>float\<close> is idealised as \<^typ>\<open>real\<close>
    (no rounding), with the faults of \<^verbatim>\<open>/\<close> and \<^verbatim>\<open>math.sqrt\<close> written out.
  \<^item> Every exception the code can raise is a constructor of \<open>error\<close>; a function that
    can raise returns \<open>error + 'a\<close> with \<open>Inl\<close> for the exception.
  \<^item> Field names carry a prefix of their class (\<open>p_x\<close>, \<open>tp_t\<close>, \<open>c_id\<close>, \<open>gc_gi\<close>, ...),
    since \<open>x\<close>, \<open>t\<close>, \<open>id\<close> are wanted as variables.
  \<^item> The clustering estimators and \<^verbatim>\<open>sklearn\<close>'s \<^verbatim>\<open>haversine_distances\<close> are
    libraries outside the repository: the operations take them as parameters.
\<close>

datatype value_cause = MaxEmpty | RangeStepZero | MathDomain | BadSignificance

datatype error =
    ValueError value_cause
  | IndexError
  | KeyError
  | ZeroDivisionError
  | TypeError

section \<open>Entity model (models.py)\<close>

record Point =
  p_x :: real
  p_y :: real

record TPoint =
  tp_x :: real
  tp_y :: real
  tp_t :: int

record Trajectory =
  tr_tps :: TPoint
  tr_tpe :: TPoint
  tr_m :: Point

text \<open>\<^verbatim>\<open>Trajectory.__init__(tps, tpe, m=None)\<close>: the midpoint defaults to the mean of the
  end points.\<close>

definition Trajectory_init :: "TPoint \<Rightarrow> TPoint \<Rightarrow> Point option \<Rightarrow> Trajectory" where
  "Trajectory_init tps tpe m =
     \<lparr>tr_tps = tps, tr_tpe = tpe,
      tr_m = (case m of
                None \<Rightarrow> \<lparr>p_x = (tp_x tpe + tp_x tps) / 2, p_y = (tp_y tpe + tp_y tps) / 2\<rparr>
              | Some q \<Rightarrow> q)\<rparr>"

record TPartition =
  ts :: int
  te :: int
  tpoints :: "TPoint list"

record ClusterPoint =
  cp_x :: real
  cp_y :: real
  cp_t :: int
  cp_c :: int

record Cluster =
  c_id :: int
  c_cpoints :: "ClusterPoint list"
  c_m :: Point
  c_t :: int
  c_c :: "int option"

text \<open>The centroid computed by \<^verbatim>\<open>Cluster.__init__\<close>:
  \<^verbatim>\<open>sum([cp.x for cp in cpoints]) / len(cpoints)\<close>, and the same for \<open>y\<close>. The caller
  guards the empty list, where Python raises \<^verbatim>\<open>ZeroDivisionError\<close>.\<close>

definition centroid :: "ClusterPoint list \<Rightarrow> Point" where
  "centroid cpoints =
     \<lparr>p_x = sum_list (map cp_x cpoints) / real (length cpoints),
      p_y = sum_list (map cp_y cpoints) / real (length cpoints)\<rparr>"

definition Cluster_init :: "int \<Rightarrow> ClusterPoint list \<Rightarrow> int \<Rightarrow> int option \<Rightarrow> error + Cluster" where
  "Cluster_init i cpoints t c =
     (if cpoints = [] then Inl ZeroDivisionError
      else Inr \<lparr>c_id = i, c_cpoints = cpoints, c_m = centroid cpoints, c_t = t, c_c = c\<rparr>)"

datatype spot = Hot | Cold

text \<open>\<^verbatim>\<open>GetisCluster(Cluster)\<close>. Its constructor hands its third argument to
  \<^verbatim>\<open>Cluster.__init__\<close> as \<open>t\<close> and leaves \<open>c\<close> at the default \<^verbatim>\<open>None\<close>. The callers of
  this repository pass a cluster label there, which may be \<^verbatim>\<open>None\<close>, so the field is
  optional here.\<close>

record GetisCluster =
  gc_id :: int
  gc_cpoints :: "ClusterPoint list"
  gc_m :: Point
  gc_t :: "int option"
  gc_c :: "int option"
  gc_x :: int
  gc_gi :: "real option"
  gc_significant :: bool
  gc_spot :: "spot option"

definition GetisCluster_init :: "int \<Rightarrow> ClusterPoint list \<Rightarrow> int option \<Rightarrow> error + GetisCluster" where
  "GetisCluster_init i cpoints t =
     (if cpoints = [] then Inl ZeroDivisionError
      else Inr \<lparr>gc_id = i, gc_cpoints = cpoints, gc_m = centroid cpoints, gc_t = t,
                gc_c = None, gc_x = int (length cpoints), gc_gi = None,
                gc_significant = False, gc_spot = None\<rparr>)"

section \<open>Python helpers\<close>

text \<open>\<^verbatim>\<open>max(...)\<close> of a generator: \<^verbatim>\<open>ValueError\<close> on the empty sequence.\<close>

fun py_max :: "int list \<Rightarrow> error + int" where
  "py_max [] = Inl (ValueError MaxEmpty)"
| "py_max (v # vs) = Inr (fold max vs v)"

text \<open>\<^verbatim>\<open>range(start, stop, step)\<close>, with CPython's length formula.\<close>

definition py_range3 :: "int \<Rightarrow> int \<Rightarrow> int \<Rightarrow> error + int list" where
  "py_range3 start stop step =
     (if step = 0 then Inl (ValueError RangeStepZero)
      else if 0 < step
        then Inr (map (\<lambda>k. start + int k * step) [0..<nat ((stop - start + step - 1) div step)])
        else Inr (map (\<lambda>k. start + int k * step) [0..<nat ((start - stop - step - 1) div (- step))]))"

text \<open>\<^verbatim>\<open>range(a, b)\<close> and \<^verbatim>\<open>range(b)\<close>.\<close>

definition py_range :: "int \<Rightarrow> int \<Rightarrow> int list" where
  "py_range a b = [a..b - 1]"

text \<open>\<^verbatim>\<open>xs[i]\<close> for an index that is never negative in this code.\<close>

definition py_nth :: "'a list \<Rightarrow> nat \<Rightarrow> error + 'a" where
  "py_nth xs i = (if i < length xs then Inr (xs ! i) else Inl IndexError)"

text \<open>Float division and \<^verbatim>\<open>math.sqrt\<close>.\<close>

definition py_div :: "real \<Rightarrow> real \<Rightarrow> error + real" where
  "py_div a b = (if b = 0 then Inl ZeroDivisionError else Inr (a / b))"

definition py_sqrt :: "real \<Rightarrow> error + real" where
  "py_sqrt r = (if r < 0 then Inl (ValueError MathDomain) else Inr (sqrt r))"

section \<open>Time partitioning (ST._create_G)\<close>

text \<open>The inner loop over the trajectories for one partition \<open>[t1, t2)\<close>: a trajectory
  is skipped when \<^verbatim>\<open>tr.tps.t > t2 or tr.tpe.t < t1\<close>; otherwise its midpoint is appended
  with the partition start \<open>t1\<close> as timestamp.\<close>

fun partition_points :: "int \<Rightarrow> int \<Rightarrow> Trajectory list \<Rightarrow> TPoint list" where
  "partition_points t1 t2 [] = []"
| "partition_points t1 t2 (tr # trs) =
     (if tp_t (tr_tps tr) > t2 \<or> tp_t (tr_tpe tr) < t1 then partition_points t1 t2 trs
      else \<lparr>tp_x = p_x (tr_m tr), tp_y = p_y (tr_m tr), tp_t = t1\<rparr> # partition_points t1 t2 trs)"

definition create_G :: "int \<Rightarrow> Trajectory list \<Rightarrow> error + TPartition list" where
  "create_G interval trajs =
     (case py_max (map (\<lambda>tr. tp_t (tr_tpe tr)) trajs) of
        Inl e \<Rightarrow> Inl e
      | Inr time_range \<Rightarrow>
          (case py_range3 0 time_range interval of
             Inl e \<Rightarrow> Inl e
           | Inr steps \<Rightarrow>
               Inr (map (\<lambda>t. \<lparr>ts = t, te = t + interval,
                               tpoints = partition_points t (t + interval) trajs\<rparr>) steps)))"

section \<open>Per-partition clustering (ST._g_clustering)\<close>

text \<open>The estimator is a parameter: \<open>gfit data\<close> is \<^verbatim>\<open>model.labels_\<close> after
  \<^verbatim>\<open>model.fit(data)\<close>. The dict \<^verbatim>\<open>clusters\<close> keeps insertion order, so it is an
  association list; \<open>dict_append\<close> is
  \<^verbatim>\<open>if k not in clusters: clusters[k] = []; clusters[k].append(d)\<close>.\<close>

fun dict_append :: "int \<Rightarrow> 'a \<Rightarrow> (int \<times> 'a list) list \<Rightarrow> (int \<times> 'a list) list" where
  "dict_append k d [] = [(k, [d])]"
| "dict_append k d ((k', v) # kvs) =
     (if k' = k then (k', v @ [d]) # kvs else (k', v) # dict_append k d kvs)"

fun group_points ::
  "int list \<Rightarrow> (nat \<times> (real \<times> real)) list \<Rightarrow> (int \<times> (real \<times> real) list) list
   \<Rightarrow> error + (int \<times> (real \<times> real) list) list" where
  "group_points labels [] clusters = Inr clusters"
| "group_points labels ((i, d) # rest) clusters =
     (case py_nth labels i of
        Inl e \<Rightarrow> Inl e
      | Inr l \<Rightarrow>
          if l = - 1 then group_points labels rest clusters
          else group_points labels rest (dict_append l d clusters))"

fun make_clusters ::
  "int \<Rightarrow> (int \<times> (real \<times> real) list) list \<Rightarrow> int \<Rightarrow> error + (Cluster list \<times> int)" where
  "make_clusters t [] i = Inr ([], i)"
| "make_clusters t ((k, v) # kvs) i =
     (case Cluster_init i
             (map (\<lambda>coords. \<lparr>cp_x = fst coords, cp_y = snd coords, cp_t = t, cp_c = k\<rparr>) v)
             t (Some k) of
        Inl e \<Rightarrow> Inl e
      | Inr c \<Rightarrow>
          (case make_clusters t kvs (i + 1) of
             Inl e \<Rightarrow> Inl e
           | Inr (Kj, i') \<Rightarrow> Inr (c # Kj, i')))"

fun g_loop ::
  "((real \<times> real) list \<Rightarrow> int list) \<Rightarrow> TPartition list \<Rightarrow> int \<Rightarrow> error + Cluster list list" where
  "g_loop gfit [] i = Inr []"
| "g_loop gfit (Gj # G) i =
     (let data = map (\<lambda>m. (tp_x m, tp_y m)) (tpoints Gj) in
      if length data = 0
      then (case g_loop gfit G i of Inl e \<Rightarrow> Inl e | Inr K \<Rightarrow> Inr ([] # K))
      else
        (case group_points (gfit data) (enumerate 0 data) [] of
           Inl e \<Rightarrow> Inl e
         | Inr clusters \<Rightarrow>
             (case make_clusters (ts Gj) clusters i of
                Inl e \<Rightarrow> Inl e
              | Inr (Kj, i') \<Rightarrow>
                  (case g_loop gfit G i' of Inl e \<Rightarrow> Inl e | Inr K \<Rightarrow> Inr (Kj # K)))))"

definition g_clustering ::
  "((real \<times> real) list \<Rightarrow> int list) \<Rightarrow> TPartition list \<Rightarrow> error + Cluster list list" where
  "g_clustering gfit G = g_loop gfit G 0"

section \<open>Window aggregation (STC._v_clustering)\<close>

text \<open>\<^verbatim>\<open>[K[j] for j in range(i, i + w)]\<close>, flattened. The loop bound keeps every \<open>j\<close>
  below \<^verbatim>\<open>len(K)\<close> (lemma \<open>window_index_in_range\<close> below), so the read never raises.\<close>

definition window_at :: "'a list list \<Rightarrow> int \<Rightarrow> int \<Rightarrow> 'a list" where
  "window_at K w i = concat (map (\<lambda>j. K ! nat j) (py_range i (i + w)))"

text \<open>One of the two comprehensions
  \<^verbatim>\<open>[Cluster(i, cpoints=cluster.cpoints, t=cluster.t, c=model.labels_[i])
     for i, cluster in enumerate(Vj) if model.labels_[i] != -1]\<close>
  (\<open>noise = False\<close>) and the one with \<^verbatim>\<open>== -1\<close> (\<open>noise = True\<close>).\<close>

fun rewrap :: "int list \<Rightarrow> bool \<Rightarrow> (nat \<times> Cluster) list \<Rightarrow> error + Cluster list" where
  "rewrap labels noise [] = Inr []"
| "rewrap labels noise ((i, cluster) # rest) =
     (case py_nth labels i of
        Inl e \<Rightarrow> Inl e
      | Inr l \<Rightarrow>
          if (l = - 1) = noise
          then (case Cluster_init (int i) (c_cpoints cluster) (c_t cluster) (Some l) of
                  Inl e \<Rightarrow> Inl e
                | Inr c \<Rightarrow>
                    (case rewrap labels noise rest of
                       Inl e \<Rightarrow> Inl e
                     | Inr cs \<Rightarrow> Inr (c # cs)))
          else rewrap labels noise rest)"

definition v_window ::
  "((real \<times> real) list \<Rightarrow> int list) \<Rightarrow> Cluster list \<Rightarrow> error + (Cluster list \<times> Cluster list)" where
  "v_window vfit Vj =
     (let data = map (\<lambda>cluster. (p_x (c_m cluster), p_y (c_m cluster))) Vj in
      if length data = 0 then Inr ([], [])
      else
        (case rewrap (vfit data) False (enumerate 0 Vj) of
           Inl e \<Rightarrow> Inl e
         | Inr Rj \<Rightarrow>
             (case rewrap (vfit data) True (enumerate 0 Vj) of
                Inl e \<Rightarrow> Inl e
              | Inr Nj \<Rightarrow> Inr (Rj, Nj))))"

fun v_loop ::
  "((real \<times> real) list \<Rightarrow> int list) \<Rightarrow> int \<Rightarrow> Cluster list list \<Rightarrow> int list
   \<Rightarrow> Cluster list list \<times> Cluster list list
   \<Rightarrow> error + (Cluster list list \<times> Cluster list list)" where
  "v_loop vfit w K [] RN = Inr RN"
| "v_loop vfit w K (i # rest) RN =
     (case v_window vfit (window_at K w i) of
        Inl e \<Rightarrow> Inl e
      | Inr (Rj, Nj) \<Rightarrow> v_loop vfit w K rest (fst RN @ [Rj], snd RN @ [Nj]))"

definition v_clustering ::
  "((real \<times> real) list \<Rightarrow> int list) \<Rightarrow> int \<Rightarrow> Cluster list list
   \<Rightarrow> error + (Cluster list list \<times> Cluster list list)" where
  "v_clustering vfit w K = v_loop vfit w K (py_range 0 (int (length K) - w + 1)) ([], [])"

definition STC_fit ::
  "((real \<times> real) list \<Rightarrow> int list) \<Rightarrow> ((real \<times> real) list \<Rightarrow> int list) \<Rightarrow> int \<Rightarrow> int
   \<Rightarrow> Trajectory list \<Rightarrow> error + (Cluster list list \<times> Cluster list list)" where
  "STC_fit gfit vfit interval w trajs =
     (case create_G interval trajs of
        Inl e \<Rightarrow> Inl e
      | Inr G \<Rightarrow>
          (case g_clustering gfit G of
             Inl e \<Rightarrow> Inl e
           | Inr K \<Rightarrow> v_clustering vfit w K))"

section \<open>Hot-spot analysis (STHS)\<close>

subsection \<open>The store of GetisCluster objects\<close>

text \<open>\<^verbatim>\<open>_calculate_getis_ord\<close> assigns to the fields of the objects held in \<open>GC\<close>, and
  the lists it returns hold those same objects. Objects therefore live in a store: a
  reference is an index into a list of records, \<open>GC\<close> and the result \<open>V\<close> are lists of
  lists of references, and every constructor call allocates the next index.\<close>

type_synonym ref = nat
type_synonym store = "GetisCluster list"

text \<open>\<^verbatim>\<open>_create_getis_clusters\<close>: the inner loop over one \<open>Kj\<close>, then the outer loop. The
  call is \<^verbatim>\<open>GetisCluster(cluster.id, cluster.cpoints, cluster.c)\<close>.\<close>

fun create_getis_row :: "Cluster list \<Rightarrow> store \<Rightarrow> error + (ref list \<times> store)" where
  "create_getis_row [] h = Inr ([], h)"
| "create_getis_row (cluster # Kj) h =
     (case GetisCluster_init (c_id cluster) (c_cpoints cluster) (c_c cluster) of
        Inl e \<Rightarrow> Inl e
      | Inr g \<Rightarrow>
          (case create_getis_row Kj (h @ [g]) of
             Inl e \<Rightarrow> Inl e
           | Inr (GCj, h') \<Rightarrow> Inr (length h # GCj, h')))"

fun create_getis_rows :: "Cluster list list \<Rightarrow> store \<Rightarrow> error + (ref list list \<times> store)" where
  "create_getis_rows [] h = Inr ([], h)"
| "create_getis_rows (Kj # K) h =
     (case create_getis_row Kj h of
        Inl e \<Rightarrow> Inl e
      | Inr (GCj, h') \<Rightarrow>
          (case create_getis_rows K h' of
             Inl e \<Rightarrow> Inl e
           | Inr (GC, h'') \<Rightarrow> Inr (GCj # GC, h'')))"

definition create_getis_clusters :: "Cluster list list \<Rightarrow> error + (ref list list \<times> store)" where
  "create_getis_clusters K = create_getis_rows K []"

subsection \<open>The distance table (STHS._calculate_distance)\<close>

definition radians :: "real \<Rightarrow> real" where
  "radians d = d * pi / 180"

text \<open>\<^verbatim>\<open>[[radians(cluster.m.y), radians(cluster.m.x)]]\<close>: (lat, lon).\<close>

definition latlon :: "GetisCluster \<Rightarrow> real \<times> real" where
  "latlon g = (radians (p_y (gc_m g)), radians (p_x (gc_m g)))"

text \<open>The formula that \<^verbatim>\<open>sklearn.metrics.pairwise.haversine_distances\<close> documents, on
  (lat, lon) pairs in radians. The operations below take the distance function as a
  parameter \<open>hav\<close>; this one instantiates it in the concrete runs.\<close>

definition haversine :: "real \<times> real \<Rightarrow> real \<times> real \<Rightarrow> real" where
  "haversine p q =
     2 * arcsin (sqrt ((sin ((fst p - fst q) / 2))\<^sup>2
                       + cos (fst p) * cos (fst q) * (sin ((snd p - snd q) / 2))\<^sup>2))"

type_synonym dist_table = "int \<rightharpoonup> (int \<rightharpoonup> real)"

text \<open>The body of \<^verbatim>\<open>try: for j in range(i, i + self.w): GCjb = GC[j]; ...\<close> for one
  \<open>clustera\<close>: the row \<^verbatim>\<open>distances[clustera.id]\<close> is filled partition by partition, and
  the first \<open>j\<close> beyond the list raises the \<^verbatim>\<open>IndexError\<close> that the \<^verbatim>\<open>except\<close> clause
  swallows, which keeps what the row holds by then.\<close>

fun distance_row ::
  "(real \<times> real \<Rightarrow> real \<times> real \<Rightarrow> real) \<Rightarrow> store \<Rightarrow> ref list list \<Rightarrow> GetisCluster
   \<Rightarrow> int list \<Rightarrow> (int \<rightharpoonup> real) \<Rightarrow> (int \<rightharpoonup> real)" where
  "distance_row hav h GC clustera [] row = row"
| "distance_row hav h GC clustera (j # js) row =
     (if nat j < length GC
      then distance_row hav h GC clustera js
             (fold (\<lambda>b r. r(gc_id (h ! b) \<mapsto> hav (latlon clustera) (latlon (h ! b))))
                   (GC ! nat j) row)
      else row)"

definition calculate_distance ::
  "(real \<times> real \<Rightarrow> real \<times> real \<Rightarrow> real) \<Rightarrow> int \<Rightarrow> store \<Rightarrow> ref list list \<Rightarrow> dist_table" where
  "calculate_distance hav w h GC =
     fold (\<lambda>i distances.
             fold (\<lambda>a distances.
                     distances(gc_id (h ! a) \<mapsto>
                       distance_row hav h GC (h ! a) (py_range (int i) (int i + w)) Map.empty))
                  (GC ! i) distances)
          [0..<length GC] Map.empty"

subsection \<open>The statistic (STHS._calculate_getis_ord)\<close>

text \<open>The nested function \<^verbatim>\<open>weight(z, gc1, gc2)\<close>: the lookup
  \<^verbatim>\<open>distances[gc1.id][gc2.id]\<close>, and on \<^verbatim>\<open>KeyError\<close> the lookup in the other order,
  whose \<^verbatim>\<open>KeyError\<close> propagates.\<close>

definition lookup2 :: "dist_table \<Rightarrow> int \<Rightarrow> int \<Rightarrow> error + real" where
  "lookup2 distances k1 k2 =
     (case distances k1 of
        None \<Rightarrow> Inl KeyError
      | Some row \<Rightarrow> (case row k2 of None \<Rightarrow> Inl KeyError | Some d \<Rightarrow> Inr d))"

definition weight :: "dist_table \<Rightarrow> int \<Rightarrow> GetisCluster \<Rightarrow> GetisCluster \<Rightarrow> error + real" where
  "weight distances z gc1 gc2 =
     (case lookup2 distances (gc_id gc1) (gc_id gc2) of
        Inr d \<Rightarrow> Inr (1 * exp (- (real_of_int z + 1) * d))
      | Inl e \<Rightarrow>
          (case lookup2 distances (gc_id gc2) (gc_id gc1) of
             Inr d \<Rightarrow> Inr (1 * exp (- (real_of_int z + 1) * d))
           | Inl e' \<Rightarrow> Inl e'))"

text \<open>\<^verbatim>\<open>z = abs(gc1.t - gc2.t)\<close>; the subtraction raises \<^verbatim>\<open>TypeError\<close> on \<^verbatim>\<open>None\<close>.\<close>

definition lag :: "GetisCluster \<Rightarrow> GetisCluster \<Rightarrow> error + int" where
  "lag gc1 gc2 =
     (case gc_t gc1 of
        None \<Rightarrow> Inl TypeError
      | Some t1 \<Rightarrow> (case gc_t gc2 of None \<Rightarrow> Inl TypeError | Some t2 \<Rightarrow> Inr \<bar>t1 - t2\<bar>))"

text \<open>The loop \<^verbatim>\<open>for gc2 in Vj\<close>, accumulating \<open>(swx, sw, sw2)\<close>.\<close>

fun weighted_sums ::
  "dist_table \<Rightarrow> store \<Rightarrow> GetisCluster \<Rightarrow> ref list \<Rightarrow> real \<times> real \<times> real
   \<Rightarrow> error + (real \<times> real \<times> real)" where
  "weighted_sums distances h gc1 [] acc = Inr acc"
| "weighted_sums distances h gc1 (r2 # rest) (swx, sw, sw2) =
     (case lag gc1 (h ! r2) of
        Inl e \<Rightarrow> Inl e
      | Inr z \<Rightarrow>
          (case weight distances z gc1 (h ! r2) of
             Inl e \<Rightarrow> Inl e
           | Inr wt \<Rightarrow>
               weighted_sums distances h gc1 rest
                 (swx + wt * real_of_int (gc_x (h ! r2)), sw + wt, sw2 + wt\<^sup>2)))"

text \<open>\<^verbatim>\<open>(swx - x_bar * sw) / (S * sqrt((n * sw2 - sw ** 2) / (n - 1)))\<close>, in Python's
  order of evaluation: the inner quotient, its square root, the outer quotient.\<close>

definition gi_star :: "nat \<Rightarrow> real \<Rightarrow> real \<Rightarrow> real \<times> real \<times> real \<Rightarrow> error + real" where
  "gi_star n x_bar S acc =
     (case acc of (swx, sw, sw2) \<Rightarrow>
        (case py_div (real n * sw2 - sw\<^sup>2) (real n - 1) of
           Inl e \<Rightarrow> Inl e
         | Inr q \<Rightarrow>
             (case py_sqrt q of
                Inl e \<Rightarrow> Inl e
              | Inr r \<Rightarrow> py_div (swx - x_bar * sw) (S * r))))"

definition critical_value :: "real \<Rightarrow> error + real" where
  "critical_value a =
     (if a = 0.10 then Inr 1.65
      else if a = 0.05 then Inr 1.96
      else if a = 0.01 then Inr 2.58
      else Inl (ValueError BadSignificance))"

text \<open>The final \<^verbatim>\<open>if gc1.gi <= -critical: ... elif gc1.gi >= critical: ...\<close>, which has
  no \<^verbatim>\<open>else\<close> branch.\<close>

definition mark :: "real \<Rightarrow> real \<Rightarrow> GetisCluster \<Rightarrow> GetisCluster" where
  "mark gi critical g =
     (if gi \<le> - critical then g\<lparr>gc_significant := True, gc_spot := Some Cold\<rparr>
      else if gi \<ge> critical then g\<lparr>gc_significant := True, gc_spot := Some Hot\<rparr>
      else g)"

text \<open>One iteration of \<^verbatim>\<open>for gc1 in Vj\<close>: the sums, the assignment to \<^verbatim>\<open>gc1.gi\<close>, the
  choice of the critical value, the classification.\<close>

definition score ::
  "dist_table \<Rightarrow> real \<Rightarrow> ref list \<Rightarrow> real \<Rightarrow> real \<Rightarrow> store \<Rightarrow> ref \<Rightarrow> error + store" where
  "score distances a Vj x_bar S h r1 =
     (case weighted_sums distances h (h ! r1) Vj (0, 0, 0) of
        Inl e \<Rightarrow> Inl e
      | Inr acc \<Rightarrow>
          (case gi_star (length Vj) x_bar S acc of
             Inl e \<Rightarrow> Inl e
           | Inr gi \<Rightarrow>
               (case critical_value a of
                  Inl e \<Rightarrow> Inl e
                | Inr critical \<Rightarrow>
                    Inr (h[r1 := mark gi critical ((h ! r1)\<lparr>gc_gi := Some gi\<rparr>)]))))"

fun score_all ::
  "dist_table \<Rightarrow> real \<Rightarrow> ref list \<Rightarrow> real \<Rightarrow> real \<Rightarrow> ref list \<Rightarrow> store \<Rightarrow> error + store" where
  "score_all distances a Vj x_bar S [] h = Inr h"
| "score_all distances a Vj x_bar S (r1 # rest) h =
     (case score distances a Vj x_bar S h r1 of
        Inl e \<Rightarrow> Inl e
      | Inr h' \<Rightarrow> score_all distances a Vj x_bar S rest h')"

text \<open>The body of the window loop after \<open>Vj\<close> is formed.\<close>

definition getis_window :: "dist_table \<Rightarrow> real \<Rightarrow> store \<Rightarrow> ref list \<Rightarrow> error + store" where
  "getis_window distances a h Vj =
     (let n = length Vj in
      if n = 0 then Inr h
      else
        (let x_bar = real_of_int (sum_list (map (\<lambda>r. gc_x (h ! r)) Vj)) / real n in
         case py_sqrt (real_of_int (sum_list (map (\<lambda>r. (gc_x (h ! r))\<^sup>2) Vj)) / real n - x_bar\<^sup>2) of
           Inl e \<Rightarrow> Inl e
         | Inr S \<Rightarrow> score_all distances a Vj x_bar S Vj h))"

fun getis_loop ::
  "dist_table \<Rightarrow> real \<Rightarrow> int \<Rightarrow> ref list list \<Rightarrow> int list \<Rightarrow> ref list list \<Rightarrow> store
   \<Rightarrow> error + (ref list list \<times> store)" where
  "getis_loop distances a w GC [] V h = Inr (V, h)"
| "getis_loop distances a w GC (i # rest) V h =
     (case getis_window distances a h (window_at GC w i) of
        Inl e \<Rightarrow> Inl e
      | Inr h' \<Rightarrow> getis_loop distances a w GC rest (V @ [window_at GC w i]) h')"

definition calculate_getis_ord ::
  "(real \<times> real \<Rightarrow> real \<times> real \<Rightarrow> real) \<Rightarrow> int \<Rightarrow> real \<Rightarrow> ref list list \<Rightarrow> store
   \<Rightarrow> error + (ref list list \<times> store)" where
  "calculate_getis_ord hav w a GC h =
     getis_loop (calculate_distance hav w h GC) a w GC
       (py_range 0 (int (length GC) - w + 1)) [] h"

text \<open>What a caller reads in the returned \<open>V\<close>: the objects behind the references.\<close>

definition deref :: "store \<Rightarrow> ref list list \<Rightarrow> GetisCluster list list" where
  "deref h V = map (map (\<lambda>r. h ! r)) V"

definition STHS_fit ::
  "((real \<times> real) list \<Rightarrow> int list) \<Rightarrow> (real \<times> real \<Rightarrow> real \<times> real \<Rightarrow> real) \<Rightarrow> int \<Rightarrow> int
   \<Rightarrow> Trajectory list \<Rightarrow> real \<Rightarrow> error + (ref list list \<times> store)" where
  "STHS_fit gfit hav interval w trajs a =
     (case create_G interval trajs of
        Inl e \<Rightarrow> Inl e
      | Inr G \<Rightarrow>
          (case g_clustering gfit G of
             Inl e \<Rightarrow> Inl e
           | Inr K \<Rightarrow>
               (case create_getis_clusters K of
                  Inl e \<Rightarrow> Inl e
                | Inr (GC, h) \<Rightarrow> calculate_getis_ord hav w a GC h)))"

section \<open>Predicates and concrete inputs used by the properties\<close>

text \<open>The latest end time of the input, \<^verbatim>\<open>max(tr.tpe.t for tr in trajs)\<close>, and the least
  multiple of the interval that is not below it (never below zero).\<close>

definition max_end_time :: "Trajectory list \<Rightarrow> int" where
  "max_end_time trajs = Max (set (map (\<lambda>tr. tp_t (tr_tpe tr)) trajs))"

definition covered_upto :: "int \<Rightarrow> int \<Rightarrow> int" where
  "covered_upto interval T = int (nat ((T + interval - 1) div interval)) * interval"

text \<open>The partitions of \<open>G\<close>, in order, are the steps \<open>[k * interval, (k + 1) * interval)\<close>
  and their union is exactly \<open>[0, T)\<close>.\<close>

definition tiles :: "int \<Rightarrow> int \<Rightarrow> TPartition list \<Rightarrow> bool" where
  "tiles interval T G \<longleftrightarrow>
     (\<forall>k < length G. ts (G ! k) = int k * interval \<and> te (G ! k) = ts (G ! k) + interval)
     \<and> (\<Union>P \<in> set G. {ts P..<te P}) = {0..<T}"

definition traj_5_25 :: Trajectory where
  "traj_5_25 = Trajectory_init \<lparr>tp_x = 0, tp_y = 0, tp_t = 5\<rparr> \<lparr>tp_x = 2, tp_y = 4, tp_t = 25\<rparr> None"

definition traj_10_10 :: Trajectory where
  "traj_10_10 = Trajectory_init \<lparr>tp_x = 3, tp_y = 3, tp_t = 10\<rparr> \<lparr>tp_x = 3, tp_y = 5, tp_t = 10\<rparr> None"

definition traj_12_25 :: Trajectory where
  "traj_12_25 = Trajectory_init \<lparr>tp_x = 6, tp_y = 0, tp_t = 12\<rparr> \<lparr>tp_x = 8, tp_y = 2, tp_t = 25\<rparr> None"

definition G_5_25 :: "TPartition list" where
  "G_5_25 =
     [\<lparr>ts = 0, te = 10, tpoints = [\<lparr>tp_x = 1, tp_y = 2, tp_t = 0\<rparr>]\<rparr>,
      \<lparr>ts = 10, te = 20, tpoints = [\<lparr>tp_x = 1, tp_y = 2, tp_t = 10\<rparr>]\<rparr>,
      \<lparr>ts = 20, te = 30, tpoints = [\<lparr>tp_x = 1, tp_y = 2, tp_t = 20\<rparr>]\<rparr>]"

definition G_boundary :: "TPartition list" where
  "G_boundary =
     [\<lparr>ts = 0, te = 10, tpoints = [\<lparr>tp_x = 3, tp_y = 4, tp_t = 0\<rparr>]\<rparr>,
      \<lparr>ts = 10, te = 20,
       tpoints = [\<lparr>tp_x = 3, tp_y = 4, tp_t = 10\<rparr>, \<lparr>tp_x = 7, tp_y = 1, tp_t = 10\<rparr>]\<rparr>,
      \<lparr>ts = 20, te = 30, tpoints = [\<lparr>tp_x = 7, tp_y = 1, tp_t = 20\<rparr>]\<rparr>]"

text \<open>The record that \<^verbatim>\<open>Cluster(i, cpoints=cluster.cpoints, t=cluster.t, c=model.labels_[i])\<close>
  builds for the pair \<open>(i, cluster)\<close> of \<^verbatim>\<open>enumerate(Vj)\<close>, and the list \<^verbatim>\<open>data\<close> of centroids
  handed to the estimator.\<close>

definition relabel :: "int list \<Rightarrow> nat \<times> Cluster \<Rightarrow> Cluster" where
  "relabel labels p =
     \<lparr>c_id = int (fst p), c_cpoints = c_cpoints (snd p), c_m = centroid (c_cpoints (snd p)),
      c_t = c_t (snd p), c_c = Some (labels ! fst p)\<rparr>"

definition centroids :: "Cluster list \<Rightarrow> (real \<times> real) list" where
  "centroids Vj = map (\<lambda>cluster. (p_x (c_m cluster), p_y (c_m cluster))) Vj"

text \<open>Three clusters, one per partition, with 1, 2 and 3 member points; \<open>A\<close> and \<open>C\<close> sit at
  (0, 0), \<open>B\<close> at longitude 180 on the equator. Ids, timestamps and labels are those that
  \<open>g_clustering\<close> assigns (ids 0, 1, 2; the partition starts 0, 10, 20; label 0).\<close>

definition cl_A :: Cluster where
  "cl_A = \<lparr>c_id = 0, c_cpoints = [\<lparr>cp_x = 0, cp_y = 0, cp_t = 0, cp_c = 0\<rparr>],
           c_m = \<lparr>p_x = 0, p_y = 0\<rparr>, c_t = 0, c_c = Some 0\<rparr>"

definition cl_B :: Cluster where
  "cl_B = \<lparr>c_id = 1, c_cpoints = [\<lparr>cp_x = 180, cp_y = 0, cp_t = 10, cp_c = 0\<rparr>,
                                   \<lparr>cp_x = 180, cp_y = 0, cp_t = 10, cp_c = 0\<rparr>],
           c_m = \<lparr>p_x = 180, p_y = 0\<rparr>, c_t = 10, c_c = Some 0\<rparr>"

definition cl_C :: Cluster where
  "cl_C = \<lparr>c_id = 2, c_cpoints = [\<lparr>cp_x = 0, cp_y = 0, cp_t = 20, cp_c = 0\<rparr>,
                                   \<lparr>cp_x = 0, cp_y = 0, cp_t = 20, cp_c = 0\<rparr>,
                                   \<lparr>cp_x = 0, cp_y = 0, cp_t = 20, cp_c = 0\<rparr>],
           c_m = \<lparr>p_x = 0, p_y = 0\<rparr>, c_t = 20, c_c = Some 0\<rparr>"

definition K_ABC :: "Cluster list list" where
  "K_ABC = [[cl_A], [cl_B], [cl_C]]"

text \<open>An estimator for the window pass: label 0 west of longitude 90, noise elsewhere.\<close>

definition west_fit :: "(real \<times> real) list \<Rightarrow> int list" where
  "west_fit data = map (\<lambda>p. if fst p < 90 then 0 else - 1) data"

definition R_ABC :: "Cluster list list" where
  "R_ABC = [[cl_A\<lparr>c_id := 0, c_c := Some 0\<rparr>], [cl_C\<lparr>c_id := 1, c_c := Some 0\<rparr>]]"

definition N_ABC :: "Cluster list list" where
  "N_ABC = [[cl_B\<lparr>c_id := 1, c_c := Some (- 1)\<rparr>], [cl_B\<lparr>c_id := 0, c_c := Some (- 1)\<rparr>]]"

text \<open>The GetisCluster that \<^verbatim>\<open>GetisCluster(cluster.id, cluster.cpoints, cluster.c)\<close> builds
  from a cluster with members.\<close>

definition getis_of :: "Cluster \<Rightarrow> GetisCluster" where
  "getis_of cluster =
     \<lparr>gc_id = c_id cluster, gc_cpoints = c_cpoints cluster, gc_m = centroid (c_cpoints cluster),
      gc_t = c_c cluster, gc_c = None, gc_x = int (length (c_cpoints cluster)), gc_gi = None,
      gc_significant = False, gc_spot = None\<rparr>"

text \<open>The number of window results the specification announces for \<open>n\<close> partitions and
  window size \<open>w\<close>: \<open>n - w + 1\<close>, or zero if \<open>w > n\<close>.\<close>

definition window_count :: "nat \<Rightarrow> int \<Rightarrow> nat" where
  "window_count n w = (if int n < w then 0 else nat (int n - w + 1))"

text \<open>A run from trajectories to the statistic. Six trajectories: one in \<open>[0, 10)\<close> at
  (0, 0), two in \<open>[10, 20)\<close> at longitude 180, three in \<open>[20, 30)\<close> at (0, 0). With an
  estimator that puts all points of a partition into cluster 0, \<open>g_clustering\<close> yields
  \<open>K_ABC\<close>; with one that labels every point as noise it yields three empty lists.\<close>

definition tr_A :: Trajectory where
  "tr_A = Trajectory_init \<lparr>tp_x = 0, tp_y = 0, tp_t = 0\<rparr> \<lparr>tp_x = 0, tp_y = 0, tp_t = 5\<rparr> None"

definition tr_B :: Trajectory where
  "tr_B = Trajectory_init \<lparr>tp_x = 180, tp_y = 0, tp_t = 12\<rparr> \<lparr>tp_x = 180, tp_y = 0, tp_t = 18\<rparr> None"

definition tr_C :: Trajectory where
  "tr_C = Trajectory_init \<lparr>tp_x = 0, tp_y = 0, tp_t = 22\<rparr> \<lparr>tp_x = 0, tp_y = 0, tp_t = 25\<rparr> None"

definition trajs_ABC :: "Trajectory list" where
  "trajs_ABC = [tr_A, tr_B, tr_B, tr_C, tr_C, tr_C]"

definition G_ABC :: "TPartition list" where
  "G_ABC =
     [\<lparr>ts = 0, te = 10, tpoints = [\<lparr>tp_x = 0, tp_y = 0, tp_t = 0\<rparr>]\<rparr>,
      \<lparr>ts = 10, te = 20,
       tpoints = [\<lparr>tp_x = 180, tp_y = 0, tp_t = 10\<rparr>, \<lparr>tp_x = 180, tp_y = 0, tp_t = 10\<rparr>]\<rparr>,
      \<lparr>ts = 20, te = 30,
       tpoints = [\<lparr>tp_x = 0, tp_y = 0, tp_t = 20\<rparr>, \<lparr>tp_x = 0, tp_y = 0, tp_t = 20\<rparr>,
                  \<lparr>tp_x = 0, tp_y = 0, tp_t = 20\<rparr>]\<rparr>]"

definition one_cluster_fit :: "(real \<times> real) list \<Rightarrow> int list" where
  "one_cluster_fit data = map (\<lambda>p. 0) data"


text \<open>The objects \<^verbatim>\<open>_create_getis_clusters\<close> allocates for \<open>K_ABC\<close> (references 0, 1, 2), the
  distance table for \<open>w = 2\<close>, and the store after the first window and after the run.\<close>

definition g_A :: GetisCluster where
  "g_A = \<lparr>gc_id = 0, gc_cpoints = c_cpoints cl_A, gc_m = \<lparr>p_x = 0, p_y = 0\<rparr>, gc_t = Some 0,
          gc_c = None, gc_x = 1, gc_gi = None, gc_significant = False, gc_spot = None\<rparr>"

definition g_B :: GetisCluster where
  "g_B = \<lparr>gc_id = 1, gc_cpoints = c_cpoints cl_B, gc_m = \<lparr>p_x = 180, p_y = 0\<rparr>, gc_t = Some 0,
          gc_c = None, gc_x = 2, gc_gi = None, gc_significant = False, gc_spot = None\<rparr>"

definition g_C :: GetisCluster where
  "g_C = \<lparr>gc_id = 2, gc_cpoints = c_cpoints cl_C, gc_m = \<lparr>p_x = 0, p_y = 0\<rparr>, gc_t = Some 0,
          gc_c = None, gc_x = 3, gc_gi = None, gc_significant = False, gc_spot = None\<rparr>"

definition GC_ABC :: "ref list list" where
  "GC_ABC = [[0], [1], [2]]"

definition D_ABC :: dist_table where
  "D_ABC = [0 \<mapsto> [0 \<mapsto> 0, 1 \<mapsto> pi], 1 \<mapsto> [1 \<mapsto> 0, 2 \<mapsto> pi], 2 \<mapsto> [2 \<mapsto> 0]]"

definition h_ABC_window0 :: store where
  "h_ABC_window0 = [g_A\<lparr>gc_gi := Some (- 1)\<rparr>, g_B\<lparr>gc_gi := Some 1\<rparr>, g_C]"

definition h_ABC_final :: store where
  "h_ABC_final = [g_A\<lparr>gc_gi := Some (- 1)\<rparr>, g_B\<lparr>gc_gi := Some (- 1)\<rparr>, g_C\<lparr>gc_gi := Some 1\<rparr>]"

text \<open>A second run: one trajectory in \<open>[0, 10)\<close> and one in \<open>[10, 20)\<close>, so that with
  \<open>w = 2\<close> the only window holds two clusters of one member each. And the distance table
  of the run on \<open>K_ABC\<close> with \<open>w = 1\<close>, where every window holds one cluster.\<close>

definition cl_B1 :: Cluster where
  "cl_B1 = \<lparr>c_id = 1, c_cpoints = [\<lparr>cp_x = 180, cp_y = 0, cp_t = 10, cp_c = 0\<rparr>],
            c_m = \<lparr>p_x = 180, p_y = 0\<rparr>, c_t = 10, c_c = Some 0\<rparr>"

definition g_B1 :: GetisCluster where
  "g_B1 = \<lparr>gc_id = 1, gc_cpoints = c_cpoints cl_B1, gc_m = \<lparr>p_x = 180, p_y = 0\<rparr>, gc_t = Some 0,
           gc_c = None, gc_x = 1, gc_gi = None, gc_significant = False, gc_spot = None\<rparr>"

definition G_AB1 :: "TPartition list" where
  "G_AB1 =
     [\<lparr>ts = 0, te = 10, tpoints = [\<lparr>tp_x = 0, tp_y = 0, tp_t = 0\<rparr>]\<rparr>,
      \<lparr>ts = 10, te = 20, tpoints = [\<lparr>tp_x = 180, tp_y = 0, tp_t = 10\<rparr>]\<rparr>]"

definition D_AB1 :: dist_table where
  "D_AB1 = [0 \<mapsto> [0 \<mapsto> 0, 1 \<mapsto> pi], 1 \<mapsto> [1 \<mapsto> 0]]"

definition D_ABC_1 :: dist_table where
  "D_ABC_1 = [0 \<mapsto> [0 \<mapsto> 0], 1 \<mapsto> [1 \<mapsto> 0], 2 \<mapsto> [2 \<mapsto> 0]]"






text \<open>The position, in the flattened window that starts at partition \<open>i\<close>, of the cluster
  at position \<open>p\<close> of partition \<open>j\<close>: the clusters of the partitions \<open>i, ..., j - 1\<close> come
  before it.\<close>

definition window_id :: "Cluster list list \<Rightarrow> nat \<Rightarrow> nat \<Rightarrow> nat \<Rightarrow> nat" where
  "window_id K i j p = length (concat (take (j - i) (drop i K))) + p"

text \<open>An estimator for which a cluster needs two points: with it the single point of the
  first partition of \<open>trajs_ABC\<close> is noise, and \<open>g_clustering\<close> yields \<open>K_BC\<close>, where \<open>B\<close> and
  \<open>C\<close> have the ids 0 and 1. \<open>R_BC\<close> and \<open>N_BC\<close> are what the window pass returns for it
  with \<open>w = 2\<close> and \<open>west_fit\<close>.\<close>

definition pair_fit :: "(real \<times> real) list \<Rightarrow> int list" where
  "pair_fit data = map (\<lambda>p. if 2 \<le> length data then 0 else - 1) data"

definition K_BC :: "Cluster list list" where
  "K_BC = [[], [cl_B\<lparr>c_id := 0\<rparr>], [cl_C\<lparr>c_id := 1\<rparr>]]"

definition R_BC :: "Cluster list list" where
  "R_BC = [[], [cl_C\<lparr>c_id := 1, c_c := Some 0\<rparr>]]"

definition N_BC :: "Cluster list list" where
  "N_BC = [[cl_B\<lparr>c_id := 0, c_c := Some (- 1)\<rparr>], [cl_B\<lparr>c_id := 0, c_c := Some (- 1)\<rparr>]]"

text \<open>A degenerate window: it holds exactly one cluster (so \<open>n - 1 = 0\<close>), or all its clusters
  have the same feature value \<open>x\<close> (so \<open>S = 0\<close>).\<close>

definition degenerate :: "store \<Rightarrow> ref list \<Rightarrow> bool" where
  "degenerate h Vj \<longleftrightarrow>
     Vj \<noteq> [] \<and> (length Vj = 1 \<or> (\<forall>r \<in> set Vj. gc_x (h ! r) = gc_x (h ! hd Vj)))"










section \<open>Verified properties\<close>

subsection \<open>Time partitioning\<close>

lemma partition_points_eq:
  "partition_points t1 t2 trs =
     map (\<lambda>tr. \<lparr>tp_x = p_x (tr_m tr), tp_y = p_y (tr_m tr), tp_t = t1\<rparr>)
         (filter (\<lambda>tr. \<not> (tp_t (tr_tps tr) > t2 \<or> tp_t (tr_tpe tr) < t1)) trs)"
  by (induction trs) auto

lemma py_max_Max: "vs \<noteq> [] \<Longrightarrow> py_max vs = Inr (Max (set vs))"
  by (cases vs) (simp_all add: Max.set_eq_fold del: set_simps)

lemma create_G_steps:
  assumes "trajs \<noteq> []" "0 < interval"
  shows "create_G interval trajs =
     Inr (map (\<lambda>k. \<lparr>ts = int k * interval, te = int k * interval + interval,
                      tpoints = partition_points (int k * interval) (int k * interval + interval) trajs\<rparr>)
              [0..<nat ((Max (set (map (\<lambda>tr. tp_t (tr_tpe tr)) trajs)) + interval - 1) div interval)])"
  using assms by (simp add: create_G_def py_max_Max py_range3_def o_def)

text \<open>Claim C6. For every partition \<open>P = [t1, t2)\<close> that \<open>create_G\<close> emits, the points of
  \<open>P\<close> are, in input order, the midpoints of exactly those trajectories for which
  \<open>NOT (start.t > t2 OR end.t < t1)\<close> holds (both boundaries inclusive), each carrying the
  partition start \<open>t1\<close> as its timestamp.\<close>

theorem partition_membership:
  assumes "create_G interval trajs = Inr G" and "P \<in> set G"
  shows "tpoints P =
     map (\<lambda>tr. \<lparr>tp_x = p_x (tr_m tr), tp_y = p_y (tr_m tr), tp_t = ts P\<rparr>)
         (filter (\<lambda>tr. \<not> (tp_t (tr_tps tr) > te P \<or> tp_t (tr_tpe tr) < ts P)) trajs)"
proof -
  from assms(1) obtain steps where G: "G = map (\<lambda>t. \<lparr>ts = t, te = t + interval,
        tpoints = partition_points t (t + interval) trajs\<rparr>) steps"
    unfolding create_G_def by (auto split: sum.splits)
  with assms(2) obtain t where "P = \<lparr>ts = t, te = t + interval,
        tpoints = partition_points t (t + interval) trajs\<rparr>" by auto
  then show ?thesis by (simp add: partition_points_eq)
qed

lemma steps_union:
  assumes "0 < (I::int)"
  shows "(\<Union>k \<in> {0..<m::nat}. {int k * I..<int k * I + I}) = {0..<int m * I}"
proof (induction m)
  case 0
  then show ?case by simp
next
  case (Suc m)
  have "(\<Union>k \<in> {0..<Suc m}. {int k * I..<int k * I + I})
        = (\<Union>k \<in> {0..<m}. {int k * I..<int k * I + I}) \<union> {int m * I..<int m * I + I}"
    by (simp add: atLeast0_lessThan_Suc Un_commute)
  also have "\<dots> = {0..<int m * I} \<union> {int m * I..<int m * I + I}"
    using Suc by simp
  also have "\<dots> = {0..<int (Suc m) * I}"
  proof -
    have a: "0 \<le> int m * I" using assms by simp
    have b: "int (Suc m) * I = int m * I + I" by (simp add: algebra_simps)
    show ?thesis unfolding b
    proof (intro set_eqI)
      fix x show "x \<in> {0..<int m * I} \<union> {int m * I..<int m * I + I} \<longleftrightarrow> x \<in> {0..<int m * I + I}"
        using a assms by (simp only: Un_iff atLeastLessThan_iff) linarith
    qed
  qed
  finally show ?case .
qed

lemma tiles_steps:
  assumes "0 < I"
  shows "tiles I (int m * I)
     (map (\<lambda>k. \<lparr>ts = int k * I, te = int k * I + I, tpoints = f k\<rparr>) [0..<m])"
proof -
  have "(\<Union>P \<in> set (map (\<lambda>k. \<lparr>ts = int k * I, te = int k * I + I, tpoints = f k\<rparr>) [0..<m]).
           {ts P..<te P}) = (\<Union>k \<in> {0..<m}. {int k * I..<int k * I + I})"
    by auto
  then show ?thesis
    unfolding tiles_def using steps_union[OF assms, of m] by simp
qed

lemma ceil_steps:
  fixes T I :: int
  assumes "0 < I"
  defines "q \<equiv> (T + I - 1) div I"
  shows "T \<le> int (nat q) * I"
    and "0 \<le> T \<Longrightarrow> int (nat q) * I < T + I"
    and "0 \<le> T \<Longrightarrow> int (nat q) * I = T \<longleftrightarrow> I dvd T"
proof -
  define r where "r = (T + I - 1) mod I"
  have eq: "T + I - 1 = q * I + r" unfolding q_def r_def by simp
  have r0: "0 \<le> r" and rI: "r < I" unfolding r_def using assms(1) by simp_all
  show "T \<le> int (nat q) * I"
  proof (cases "0 \<le> q")
    case True
    then show ?thesis using eq rI by simp
  next
    case False
    then have "q \<le> - 1" by simp
    then have "q * I \<le> (- 1) * I" using assms(1) by (intro mult_right_mono) simp_all
    then have "q * I \<le> - I" by simp
    with eq rI assms(1) have "T \<le> 0" by linarith
    moreover have "nat q = 0" using False by simp
    ultimately show ?thesis by (simp only: of_nat_0 mult_zero_left)
  qed
  {
    assume T0: "0 \<le> T"
    have q0: "0 \<le> q" unfolding q_def using T0 assms(1) by (simp add: pos_imp_zdiv_nonneg_iff)
    then have nq: "int (nat q) * I = q * I" by simp
    show "int (nat q) * I < T + I" unfolding nq using eq r0 by simp
    show "int (nat q) * I = T \<longleftrightarrow> I dvd T"
    proof
      assume "int (nat q) * I = T" then show "I dvd T" by (metis dvd_triv_right)
    next
      assume "I dvd T"
      then obtain k where k: "T = k * I" by (metis dvd_def mult.commute)
      have "I dvd (I - 1 - r)"
      proof -
        have "I - 1 - r = (q - k) * I" using eq k by (simp add: algebra_simps)
        then show ?thesis by simp
      qed
      moreover have "0 \<le> I - 1 - r" "I - 1 - r < I" using r0 rI by simp_all
      ultimately have "I - 1 - r = 0"
        by (metis dvd_imp_le_int abs_of_nonneg abs_of_pos assms(1) linorder_not_le)
      then have "q * I = T" using eq by simp
      then show "int (nat q) * I = T" using nq by simp
    qed
  }
qed

lemma upt_3: "[0..<3] = [0, 1, 2]"
  by (simp add: upt_rec)

lemma create_G_5_25: "create_G 10 [traj_5_25] = Inr G_5_25"
  by (simp add: create_G_def py_range3_def traj_5_25_def Trajectory_init_def G_5_25_def upt_3)

lemma create_G_boundary: "create_G 10 [traj_10_10, traj_12_25] = Inr G_boundary"
  by (simp add: create_G_def py_range3_def traj_10_10_def traj_12_25_def Trajectory_init_def
      G_boundary_def upt_3)

lemma tiles_unique:
  assumes "tiles I U G" "0 \<le> U" "0 \<le> T"
  shows "tiles I T G \<longleftrightarrow> U = T"
proof
  assume "tiles I T G"
  then have e: "{0..<U} = {0..<T}" using assms(1) unfolding tiles_def by simp
  have "\<not> U < T"
  proof
    assume "U < T"
    then have "U \<in> {0..<T}" using assms(2) by simp
    with e have "U \<in> {0..<U}" by simp
    then show False by simp
  qed
  moreover have "\<not> T < U"
  proof
    assume "T < U"
    then have "T \<in> {0..<U}" using assms(3) by simp
    with e have "T \<in> {0..<T}" by simp
    then show False by simp
  qed
  ultimately show "U = T" by linarith
next
  assume "U = T" then show "tiles I T G" using assms(1) by simp
qed

text \<open>Claim C5, as amended. For a non-empty trajectory list and a positive interval,
  \<open>create_G\<close> returns partitions whose ranges are the consecutive steps of width
  \<open>interval\<close> from 0 and tile, without gap or overlap, \<open>[0, U)\<close> where \<open>U\<close> is the least
  multiple of \<open>interval\<close> not below the latest end time \<open>T\<close> (0 when \<open>T\<close> is negative). So
  \<open>[0, T)\<close> is covered, the last partition may reach beyond \<open>T\<close> by less than one
  interval, and for \<open>T \<ge> 0\<close> the tiling of \<open>[0, T)\<close> is exact precisely when \<open>interval\<close>
  divides \<open>T\<close>.\<close>

theorem partition_ranges_tile_to_next_multiple:
  assumes "trajs \<noteq> []" and "0 < interval"
  shows "\<exists>G. create_G interval trajs = Inr G
           \<and> tiles interval (covered_upto interval (max_end_time trajs)) G
           \<and> max_end_time trajs \<le> covered_upto interval (max_end_time trajs)
           \<and> (0 \<le> max_end_time trajs \<longrightarrow>
                covered_upto interval (max_end_time trajs) < max_end_time trajs + interval
                \<and> (tiles interval (max_end_time trajs) G \<longleftrightarrow> interval dvd max_end_time trajs))"
proof -
  let ?T = "max_end_time trajs"
  let ?m = "nat ((?T + interval - 1) div interval)"
  let ?G = "map (\<lambda>k. \<lparr>ts = int k * interval, te = int k * interval + interval,
                      tpoints = partition_points (int k * interval) (int k * interval + interval) trajs\<rparr>)
              [0..<?m]"
  have run: "create_G interval trajs = Inr ?G"
    using create_G_steps[OF assms] by (simp add: max_end_time_def)
  have t: "tiles interval (covered_upto interval ?T) ?G"
    unfolding covered_upto_def by (rule tiles_steps[OF assms(2)])
  have le: "?T \<le> covered_upto interval ?T"
    unfolding covered_upto_def by (rule ceil_steps(1)[OF assms(2)])
  have up: "0 \<le> ?T \<Longrightarrow> covered_upto interval ?T < ?T + interval"
    unfolding covered_upto_def by (rule ceil_steps(2)[OF assms(2)])
  have iff: "tiles interval ?T ?G \<longleftrightarrow> interval dvd ?T" if T0: "0 \<le> ?T"
  proof -
    have "0 \<le> covered_upto interval ?T" using le T0 by linarith
    from tiles_unique[OF t this T0] ceil_steps(3)[OF assms(2) T0]
    show ?thesis unfolding covered_upto_def by simp
  qed
  show ?thesis using run t le up iff by blast
qed

text \<open>The amended claim at one trajectory ending at 25 with interval 10.\<close>

theorem partition_ranges_tile_to_next_multiple_witness:
  "[traj_5_25] \<noteq> [] \<and> (0::int) < 10 \<and> max_end_time [traj_5_25] = 25
   \<and> create_G 10 [traj_5_25] = Inr G_5_25 \<and> tiles 10 30 G_5_25 \<and> \<not> tiles 10 25 G_5_25"
proof -
  have T: "max_end_time [traj_5_25] = 25"
    by (simp add: max_end_time_def traj_5_25_def Trajectory_init_def)
  have c: "covered_upto 10 25 = 30" by (simp add: covered_upto_def)
  have h: "[traj_5_25] \<noteq> []" "(0::int) < 10" by simp_all
  from partition_ranges_tile_to_next_multiple[OF h] show ?thesis
    unfolding T c using create_G_5_25 by auto
qed

text \<open>Claim C5 as stated fails there: the three partitions reach 30, not 25.\<close>

theorem exact_tiling_counterexample:
  "create_G 10 [traj_5_25] = Inr G_5_25 \<and> max_end_time [traj_5_25] = 25 \<and> \<not> tiles 10 25 G_5_25"
proof -
  have "(27::int) \<in> (\<Union>P \<in> set G_5_25. {ts P..<te P})" by (simp add: G_5_25_def)
  moreover have "(27::int) \<notin> {0..<25}" by simp
  ultimately have "\<not> tiles 10 25 G_5_25" unfolding tiles_def by blast
  moreover have "max_end_time [traj_5_25] = 25"
    by (simp add: max_end_time_def traj_5_25_def Trajectory_init_def)
  ultimately show ?thesis using create_G_5_25 by simp
qed

text \<open>Claim C6 at two trajectories, one of them sitting exactly on the boundary 10: it
  appears in \<open>[0, 10)\<close> and in \<open>[10, 20)\<close>.\<close>

theorem partition_membership_witness:
  "create_G 10 [traj_10_10, traj_12_25] = Inr G_boundary
   \<and> tpoints (G_boundary ! 0) = [\<lparr>tp_x = 3, tp_y = 4, tp_t = 0\<rparr>]
   \<and> tpoints (G_boundary ! 1) = [\<lparr>tp_x = 3, tp_y = 4, tp_t = 10\<rparr>, \<lparr>tp_x = 7, tp_y = 1, tp_t = 10\<rparr>]
   \<and> tpoints (G_boundary ! 2) = [\<lparr>tp_x = 7, tp_y = 1, tp_t = 20\<rparr>]"
proof -
  have m: "G_boundary ! 0 \<in> set G_boundary" "G_boundary ! 1 \<in> set G_boundary"
    "G_boundary ! 2 \<in> set G_boundary" by (simp_all add: G_boundary_def)
  have v: "ts (G_boundary ! 0) = 0" "te (G_boundary ! 0) = 10" "ts (G_boundary ! 1) = 10"
    "te (G_boundary ! 1) = 20" "ts (G_boundary ! 2) = 20" "te (G_boundary ! 2) = 30"
    by (simp_all add: G_boundary_def)
  show ?thesis
    using partition_membership[OF create_G_boundary m(1)]
      partition_membership[OF create_G_boundary m(2)]
      partition_membership[OF create_G_boundary m(3)] create_G_boundary
    unfolding v by (simp add: traj_10_10_def traj_12_25_def Trajectory_init_def)
qed

subsection \<open>Window aggregation\<close>

lemma rewrap_Inr:
  assumes "rewrap labels noise ps = Inr cs"
  shows "cs = map (relabel labels) (filter (\<lambda>p. (labels ! fst p = - 1) = noise) ps)"
  using assms
proof (induction ps arbitrary: cs)
  case Nil
  then show ?case by simp
next
  case (Cons p ps)
  obtain i cl where p: "p = (i, cl)" by (cases p)
  show ?case
  proof (cases "i < length labels")
    case False
    with Cons.prems p show ?thesis by (simp add: py_nth_def)
  next
    case True
    show ?thesis
    proof (cases "(labels ! i = - 1) = noise")
      case False
      with Cons True p show ?thesis by (simp add: py_nth_def)
    next
      case sel: True
      show ?thesis
      proof (cases "c_cpoints cl = []")
        case True
        with Cons.prems \<open>i < length labels\<close> sel p show ?thesis
          by (simp add: py_nth_def Cluster_init_def)
      next
        case False
        from Cons.prems \<open>i < length labels\<close> sel p False
        obtain cs' where r: "rewrap labels noise ps = Inr cs'"
          and cs: "cs = relabel labels (i, cl) # cs'"
          by (auto simp: py_nth_def Cluster_init_def relabel_def split: sum.splits)
        from Cons.IH[OF r] cs sel p show ?thesis by simp
      qed
    qed
  qed
qed

lemma rewrap_total:
  assumes "\<forall>p \<in> set ps. fst p < length labels \<and> c_cpoints (snd p) \<noteq> []"
  shows "\<exists>cs. rewrap labels noise ps = Inr cs"
  using assms
proof (induction ps)
  case Nil
  then show ?case by simp
next
  case (Cons p ps)
  obtain i cl where p: "p = (i, cl)" by (cases p)
  from Cons obtain cs where "rewrap labels noise ps = Inr cs" by auto
  with Cons.prems p show ?case by (simp add: py_nth_def Cluster_init_def)
qed

lemma v_window_Inr:
  assumes "v_window vfit Vj = Inr (Rj, Nj)"
  shows "(Vj = [] \<longrightarrow> Rj = [] \<and> Nj = [])
       \<and> (Vj \<noteq> [] \<longrightarrow>
            Rj = map (relabel (vfit (centroids Vj)))
                   (filter (\<lambda>p. vfit (centroids Vj) ! fst p \<noteq> - 1) (enumerate 0 Vj))
          \<and> Nj = map (relabel (vfit (centroids Vj)))
                   (filter (\<lambda>p. vfit (centroids Vj) ! fst p = - 1) (enumerate 0 Vj)))"
proof (cases "Vj = []")
  case True
  with assms show ?thesis by (simp add: v_window_def)
next
  case False
  from assms False obtain
    r: "rewrap (vfit (centroids Vj)) False (enumerate 0 Vj) = Inr Rj" and
    n: "rewrap (vfit (centroids Vj)) True (enumerate 0 Vj) = Inr Nj"
    by (auto simp: v_window_def centroids_def Let_def split: sum.splits)
  from rewrap_Inr[OF r] rewrap_Inr[OF n] False show ?thesis by simp
qed

lemma v_window_total:
  assumes "length (vfit (centroids Vj)) = length Vj" and "\<forall>cl \<in> set Vj. c_cpoints cl \<noteq> []"
  shows "\<exists>Rj Nj. v_window vfit Vj = Inr (Rj, Nj)"
proof -
  have "\<forall>p \<in> set (enumerate 0 Vj). fst p < length (vfit (centroids Vj)) \<and> c_cpoints (snd p) \<noteq> []"
    using assms by (auto simp: in_set_enumerate_eq)
  from rewrap_total[OF this, of False] rewrap_total[OF this, of True]
  show ?thesis by (auto simp: v_window_def centroids_def Let_def)
qed

lemma v_loop_Inr:
  assumes "v_loop vfit w K js (R0, N0) = Inr (R, N)"
  shows "length R = length R0 + length js \<and> length N = length N0 + length js
       \<and> take (length R0) R = R0 \<and> take (length N0) N = N0
       \<and> (\<forall>k < length js.
            v_window vfit (window_at K w (js ! k)) = Inr (R ! (length R0 + k), N ! (length N0 + k)))"
  using assms
proof (induction js arbitrary: R0 N0)
  case Nil
  then show ?case by simp
next
  case (Cons j js)
  from Cons.prems obtain Rj Nj where
    w: "v_window vfit (window_at K w j) = Inr (Rj, Nj)" and
    l: "v_loop vfit w K js (R0 @ [Rj], N0 @ [Nj]) = Inr (R, N)"
    by (auto split: sum.splits)
  from Cons.IH[OF l] have
    len: "length R = length R0 + 1 + length js" "length N = length N0 + 1 + length js" and
    tk: "take (length R0 + 1) R = R0 @ [Rj]" "take (length N0 + 1) N = N0 @ [Nj]" and
    rest: "\<forall>k < length js. v_window vfit (window_at K w (js ! k))
              = Inr (R ! (length R0 + 1 + k), N ! (length N0 + 1 + k))"
    by simp_all
  have tR: "take (length R0) R = R0"
    using tk(1) by (metis append_eq_conv_conj take_add take_take min.idem length_append le_add1 min_def)
  have tN: "take (length N0) N = N0"
    using tk(2) by (metis append_eq_conv_conj take_add take_take min.idem length_append le_add1 min_def)
  have hR: "R ! length R0 = Rj"
    using tk(1) len(1) by (metis nth_take lessI nth_append_length Suc_eq_plus1)
  have hN: "N ! length N0 = Nj"
    using tk(2) len(2) by (metis nth_take lessI nth_append_length Suc_eq_plus1)
  show ?case
  proof (intro conjI allI impI)
    fix k assume k: "k < length (j # js)"
    show "v_window vfit (window_at K w ((j # js) ! k))
            = Inr (R ! (length R0 + k), N ! (length N0 + k))"
    proof (cases k)
      case 0
      then show ?thesis using w hR hN by simp
    next
      case (Suc k')
      then show ?thesis using rest k by simp
    qed
  qed (use len tR tN in simp_all)
qed

lemma v_loop_total:
  assumes "\<forall>j \<in> set js. \<exists>Rj Nj. v_window vfit (window_at K w j) = Inr (Rj, Nj)"
  shows "\<exists>R N. v_loop vfit w K js RN = Inr (R, N)"
  using assms
proof (induction js arbitrary: RN)
  case Nil
  then show ?case by (cases RN) simp
next
  case (Cons j js)
  then obtain Rj Nj where "v_window vfit (window_at K w j) = Inr (Rj, Nj)" by auto
  moreover from Cons obtain R N where
    "v_loop vfit w K js (fst RN @ [Rj], snd RN @ [Nj]) = Inr (R, N)" by fastforce
  ultimately show ?case by simp
qed

lemma length_py_range: "length (py_range a b) = nat (b - a)"
  by (simp add: py_range_def)

lemma nth_py_range: "k < nat (b - a) \<Longrightarrow> py_range a b ! k = a + int k"
  by (simp add: py_range_def)

lemma set_py_range: "set (py_range a b) = {a..<b}"
  by (auto simp: py_range_def)

lemma window_index_in_range:
  assumes "i \<in> set (py_range 0 (int (length K) - w + 1))" and "j \<in> set (py_range i (i + w))"
  shows "0 \<le> j \<and> nat j < length K"
  using assms by (auto simp: set_py_range)

lemma window_at_take_drop:
  assumes "0 \<le> i" and "i + w \<le> int (length K)"
  shows "window_at K w i = concat (take (nat w) (drop (nat i) K))"
proof -
  have "map (\<lambda>j. K ! nat j) (py_range i (i + w)) = take (nat w) (drop (nat i) K)"
  proof (rule nth_equalityI)
    show "length (map (\<lambda>j. K ! nat j) (py_range i (i + w))) = length (take (nat w) (drop (nat i) K))"
      using assms by (simp add: length_py_range)
  next
    fix k assume "k < length (map (\<lambda>j. K ! nat j) (py_range i (i + w)))"
    then have k: "k < nat w" by (simp add: length_py_range)
    then have "py_range i (i + w) ! k = i + int k" by (simp add: nth_py_range)
    moreover have "nat (i + int k) = nat i + k" using assms(1) by (simp add: nat_add_distrib)
    ultimately show "map (\<lambda>j. K ! nat j) (py_range i (i + w)) ! k = take (nat w) (drop (nat i) K) ! k"
      using k assms by (simp add: length_py_range)
  qed
  then show ?thesis by (simp add: window_at_def)
qed

lemma v_clustering_Inr:
  assumes "v_clustering vfit w K = Inr (R, N)"
  shows "length R = nat (int (length K) - w + 1)" "length N = nat (int (length K) - w + 1)"
    "i < length R \<Longrightarrow> v_window vfit (window_at K w (int i)) = Inr (R ! i, N ! i)"
proof -
  from v_loop_Inr[OF assms[unfolded v_clustering_def]]
  have len: "length R = length (py_range 0 (int (length K) - w + 1))"
      "length N = length (py_range 0 (int (length K) - w + 1))"
    and win: "\<forall>k < length (py_range 0 (int (length K) - w + 1)).
           v_window vfit (window_at K w (py_range 0 (int (length K) - w + 1) ! k)) = Inr (R ! k, N ! k)"
    by simp_all
  show "length R = nat (int (length K) - w + 1)" "length N = nat (int (length K) - w + 1)"
    using len by (simp_all add: length_py_range)
  assume "i < length R"
  then have i: "i < nat (int (length K) - w + 1)" using len by (simp add: length_py_range)
  then have e: "py_range 0 (int (length K) - w + 1) ! i = int i" by (simp add: nth_py_range)
  from win i have "v_window vfit (window_at K w (py_range 0 (int (length K) - w + 1) ! i))
      = Inr (R ! i, N ! i)"
    by (simp only: length_py_range diff_zero)
  then show "v_window vfit (window_at K w (int i)) = Inr (R ! i, N ! i)"
    unfolding e .
qed

text \<open>Claim C7. In a successful run of \<open>v_clustering\<close>, for every window index \<open>i\<close>: the
  window \<open>Vj\<close> is the flattened \<open>K[i..i+w)\<close>; if it is empty, \<open>R[i]\<close> and \<open>N[i]\<close> are empty;
  otherwise the estimator runs on the centroids of \<open>Vj\<close> and \<open>R[i]\<close> holds, in order, the
  re-wrapped clusters whose new label is not -1 and \<open>N[i]\<close> those whose new label is -1,
  each re-wrapped cluster keeping the member points and the timestamp of the original
  (\<open>relabel\<close>).\<close>

theorem v_clustering_window_contents:
  assumes "v_clustering vfit w K = Inr (R, N)" and "i < length R"
  shows "window_at K w (int i) = concat (take (nat w) (drop i K))
       \<and> (window_at K w (int i) = [] \<longrightarrow> R ! i = [] \<and> N ! i = [])
       \<and> (window_at K w (int i) \<noteq> [] \<longrightarrow>
            R ! i = map (relabel (vfit (centroids (window_at K w (int i)))))
                      (filter (\<lambda>p. vfit (centroids (window_at K w (int i))) ! fst p \<noteq> - 1)
                              (enumerate 0 (window_at K w (int i))))
          \<and> N ! i = map (relabel (vfit (centroids (window_at K w (int i)))))
                      (filter (\<lambda>p. vfit (centroids (window_at K w (int i))) ! fst p = - 1)
                              (enumerate 0 (window_at K w (int i)))))"
proof -
  have "i < nat (int (length K) - w + 1)" using assms(2) v_clustering_Inr(1)[OF assms(1)] by simp
  then have "int i + w \<le> int (length K)" by linarith
  from window_at_take_drop[OF _ this] have "window_at K w (int i) = concat (take (nat w) (drop i K))"
    by simp
  with v_window_Inr[OF v_clustering_Inr(3)[OF assms]] show ?thesis by blast
qed

lemma relabel_ids:
  "map c_id (map (relabel L) (filter (\<lambda>p. Q (fst p)) (enumerate 0 Vj)))
     = map int (filter Q [0..<length Vj])"
proof -
  have g: "map c_id (map (relabel L) (filter (\<lambda>p. Q (fst p)) ps)) = map int (filter Q (map fst ps))"
    for ps :: "(nat \<times> Cluster) list"
    by (induction ps) (auto simp: relabel_def)
  have "map fst (enumerate 0 Vj) = [0..<length Vj]" by simp
  with g[of "enumerate 0 Vj"] show ?thesis by (simp only:)
qed

lemma relabel_member:
  assumes "c \<in> set (map (relabel L) (filter Q (enumerate 0 Vj)))"
  shows "0 \<le> c_id c \<and> nat (c_id c) < length Vj
       \<and> c_cpoints c = c_cpoints (Vj ! nat (c_id c)) \<and> c_t c = c_t (Vj ! nat (c_id c))"
proof -
  from assms obtain p where p: "p \<in> set (enumerate 0 Vj)" and c: "c = relabel L p" by auto
  from p have "fst p < length Vj" "snd p = Vj ! fst p" by (auto simp: in_set_enumerate_eq)
  with c show ?thesis by (simp add: relabel_def)
qed

lemma upto_0_1: "[0..1::int] = [0, 1]" "[1..2::int] = [1, 2]" "[0..0::int] = [0]" "[2..3::int] = [2,3]"
  by (simp_all add: upto.simps)

lemma windows_ABC:
  "window_at K_ABC 2 0 = [cl_A, cl_B]" "window_at K_ABC 2 1 = [cl_B, cl_C]"
  by (simp_all add: window_at_def py_range_def K_ABC_def upto_0_1)

lemma v_window_AB:
  "v_window west_fit [cl_A, cl_B] = Inr ([cl_A\<lparr>c_id := 0, c_c := Some 0\<rparr>], [cl_B\<lparr>c_id := 1, c_c := Some (- 1)\<rparr>])"
  by (simp add: v_window_def west_fit_def cl_A_def cl_B_def py_nth_def Cluster_init_def centroid_def enumerate_eq_zip upt_rec)

lemma v_window_BC:
  "v_window west_fit [cl_B, cl_C] = Inr ([cl_C\<lparr>c_id := 1, c_c := Some 0\<rparr>], [cl_B\<lparr>c_id := 0, c_c := Some (- 1)\<rparr>])"
  by (simp add: v_window_def west_fit_def cl_C_def cl_B_def py_nth_def Cluster_init_def centroid_def enumerate_eq_zip upt_rec)

lemma v_clustering_ABC: "v_clustering west_fit 2 K_ABC = Inr (R_ABC, N_ABC)"
proof -
  have "py_range 0 (int (length K_ABC) - 2 + 1) = [0, 1]"
    by (simp add: py_range_def K_ABC_def upto_0_1)
  then show ?thesis
    by (simp add: v_clustering_def windows_ABC v_window_AB v_window_BC R_ABC_def N_ABC_def)
qed

text \<open>Claim C7 at the second window of \<open>K_ABC\<close> with \<open>w = 2\<close>.\<close>

theorem v_clustering_window_contents_witness:
  "v_clustering west_fit 2 K_ABC = Inr (R_ABC, N_ABC) \<and> (1::nat) < length R_ABC
   \<and> window_at K_ABC 2 (int 1) = [cl_B, cl_C]
   \<and> R_ABC ! 1 = map (relabel [- 1, 0]) [(1, cl_C)]
   \<and> N_ABC ! 1 = map (relabel [- 1, 0]) [(0, cl_B)]
   \<and> map c_cpoints (R_ABC ! 1) = [c_cpoints cl_C] \<and> map c_t (R_ABC ! 1) = [20]
   \<and> map c_c (R_ABC ! 1) = [Some 0]
   \<and> map c_cpoints (N_ABC ! 1) = [c_cpoints cl_B] \<and> map c_t (N_ABC ! 1) = [10]
   \<and> map c_c (N_ABC ! 1) = [Some (- 1)]"
proof -
  have l: "(1::nat) < length R_ABC" by (simp add: R_ABC_def)
  have w: "window_at K_ABC 2 (int 1) = [cl_B, cl_C]" using windows_ABC(2) by simp
  have f: "west_fit (centroids [cl_B, cl_C]) = [- 1, 0]"
    by (simp add: west_fit_def centroids_def cl_B_def cl_C_def)
  have e: "enumerate 0 [cl_B, cl_C] = [(0, cl_B), (1, cl_C)]" by (simp add: enumerate_eq_zip upt_rec)
  from v_clustering_window_contents[OF v_clustering_ABC l]
  have "R_ABC ! 1 = map (relabel [- 1, 0]) [(1, cl_C)] \<and> N_ABC ! 1 = map (relabel [- 1, 0]) [(0, cl_B)]"
    unfolding w f e by simp
  then show ?thesis using v_clustering_ABC l w
    by (simp add: relabel_def cl_B_def cl_C_def)
qed

subsection \<open>Hot-spot analysis: the distance table\<close>

text \<open>Folding map updates.\<close>

lemma fold_upd_other:
  "k \<notin> key ` set bs \<Longrightarrow> fold (\<lambda>b m. m(key b \<mapsto> val b)) bs m k = m k"
  by (induction bs arbitrary: m) auto

lemma fold_upd_Some:
  "fold (\<lambda>b m. m(key b \<mapsto> val b)) bs m k = Some d
    \<Longrightarrow> m k = Some d \<or> (\<exists>b \<in> set bs. key b = k \<and> d = val b)"
proof (induction bs arbitrary: m)
  case Nil
  then show ?case by simp
next
  case (Cons b bs)
  from Cons.IH[of "m(key b \<mapsto> val b)"] Cons.prems
  have "(m(key b \<mapsto> val b)) k = Some d \<or> (\<exists>b' \<in> set bs. key b' = k \<and> d = val b')" by simp
  then show ?case by (auto split: if_splits)
qed

lemma fold_upd_mem:
  "b \<in> set bs \<Longrightarrow>
     \<exists>b' \<in> set bs. key b' = key b \<and> fold (\<lambda>b m. m(key b \<mapsto> val b)) bs m (key b) = Some (val b')"
proof (induction bs arbitrary: m b)
  case Nil
  then show ?case by simp
next
  case (Cons c bs)
  let ?f = "\<lambda>b m. m(key b \<mapsto> val b)"
  have step: "fold ?f (c # bs) m = fold ?f bs (m(key c \<mapsto> val c))" by simp
  show ?case
  proof (cases "key b \<in> key ` set bs")
    case True
    then obtain b0 where b0: "b0 \<in> set bs" "key b0 = key b" by auto
    from Cons.IH[OF b0(1), of "m(key c \<mapsto> val c)"] obtain b' where
      "b' \<in> set bs" "key b' = key b0" "fold ?f bs (m(key c \<mapsto> val c)) (key b0) = Some (val b')"
      by blast
    then have "b' \<in> set (c # bs)" "key b' = key b" "fold ?f (c # bs) m (key b) = Some (val b')"
      unfolding step using b0(2) by simp_all
    then show ?thesis by blast
  next
    case False
    with Cons.prems have bc: "b = c" by auto
    have "fold ?f bs (m(key c \<mapsto> val c)) (key b) = (m(key c \<mapsto> val c)) (key b)"
      by (rule fold_upd_other[OF False])
    also have "\<dots> = Some (val c)" using bc by simp
    finally have "fold ?f (c # bs) m (key b) = Some (val c)" unfolding step .
    moreover have "c \<in> set (c # bs)" "key c = key b" using bc by simp_all
    ultimately show ?thesis by blast
  qed
qed

lemma fold_nested:
  "fold (\<lambda>i m. fold (g i) (xss i) m) is m
     = fold (\<lambda>p. g (fst p) (snd p)) (concat (map (\<lambda>i. map (Pair i) (xss i)) is)) m"
proof (induction "is" arbitrary: m)
  case Nil
  then show ?case by simp
next
  case (Cons i "is")
  have "fold (\<lambda>p. g (fst p) (snd p)) (map (Pair i) (xss i)) m = fold (g i) (xss i) m" for m
    by (simp add: fold_map o_def)
  with Cons show ?case by simp
qed

lemma distinct_concat_index:
  assumes "distinct (concat xss)" "i < length xss" "j < length xss"
    "x \<in> set (xss ! i)" "x \<in> set (xss ! j)"
  shows "i = j"
  using assms
proof (induction xss arbitrary: i j)
  case Nil
  then show ?case by simp
next
  case (Cons xs xss)
  from Cons.prems(1) have d: "distinct (concat xss)" and
    dj: "set xs \<inter> set (concat xss) = {}" by simp_all
  have notin: "k < length xss \<Longrightarrow> x \<in> set (xss ! k) \<Longrightarrow> x \<notin> set xs" for k
    using dj by (auto simp: disjoint_iff)
  show ?case
  proof (cases i)
    case 0
    show ?thesis
    proof (cases j)
      case 0
      with \<open>i = 0\<close> show ?thesis by simp
    next
      case (Suc j')
      with Cons.prems 0 notin[of j'] show ?thesis by simp
    qed
  next
    case (Suc i')
    show ?thesis
    proof (cases j)
      case 0
      with Cons.prems Suc notin[of i'] show ?thesis by simp
    next
      case (Suc j')
      with Cons.prems \<open>i = Suc i'\<close> Cons.IH[OF d, of i' j'] show ?thesis by simp
    qed
  qed
qed

lemma distance_row_fold:
  "distance_row hav h GC a js row =
     fold (\<lambda>b r. r(gc_id (h ! b) \<mapsto> hav (latlon a) (latlon (h ! b))))
          (concat (map (\<lambda>j. GC ! nat j) (takeWhile (\<lambda>j. nat j < length GC) js))) row"
  by (induction js arbitrary: row) simp_all

lemma takeWhile_upto_mem:
  assumes "i \<le> j" "j \<le> u" "\<forall>j'. i \<le> j' \<and> j' \<le> j \<longrightarrow> P j'"
  shows "j \<in> set (takeWhile P [i..u])"
proof -
  have "[i..u] = [i..j] @ [j + 1..u]" using assms(1,2) by (rule upto_split2)
  moreover have "\<forall>x \<in> set [i..j]. P x" using assms(3) by simp
  ultimately have "takeWhile P [i..u] = [i..j] @ takeWhile P [j + 1..u]"
    by (simp only: takeWhile_append2)
  then show ?thesis using assms(1) by simp
qed

lemma row_partitions_mem:
  assumes "b \<in> set (concat (map (\<lambda>j. GC ! nat j)
                       (takeWhile (\<lambda>j. nat j < length GC) (py_range (int i) (int i + w)))))"
  shows "\<exists>j. i \<le> j \<and> int j < int i + w \<and> j < length GC \<and> b \<in> set (GC ! j)"
proof -
  from assms obtain j' where j': "j' \<in> set (takeWhile (\<lambda>j. nat j < length GC) (py_range (int i) (int i + w)))"
    and b: "b \<in> set (GC ! nat j')" by auto
  from set_takeWhileD[OF j'] have "int i \<le> j'" "j' < int i + w" "nat j' < length GC"
    by (simp_all add: py_range_def)
  then have "i \<le> nat j' \<and> int (nat j') < int i + w \<and> nat j' < length GC" by linarith
  with b show ?thesis by blast
qed

lemma row_partitions_intro:
  assumes "i \<le> j" "int j < int i + w" "j < length GC" "b \<in> set (GC ! j)"
  shows "b \<in> set (concat (map (\<lambda>j. GC ! nat j)
                       (takeWhile (\<lambda>j. nat j < length GC) (py_range (int i) (int i + w)))))"
proof -
  have "int j \<in> set (takeWhile (\<lambda>j. nat j < length GC) [int i..int i + w - 1])"
  proof (rule takeWhile_upto_mem)
    show "int i \<le> int j" using assms(1) by simp
    show "int j \<le> int i + w - 1" using assms(2) by simp
    show "\<forall>j'. int i \<le> j' \<and> j' \<le> int j \<longrightarrow> nat j' < length GC" using assms(3) by auto
  qed
  then show ?thesis using assms(4) unfolding py_range_def by force
qed

lemma calculate_distance_fold:
  "calculate_distance hav w h GC =
     fold (\<lambda>p D. D(gc_id (h ! snd p) \<mapsto>
              distance_row hav h GC (h ! snd p) (py_range (int (fst p)) (int (fst p) + w)) Map.empty))
          (concat (map (\<lambda>i. map (Pair i) (GC ! i)) [0..<length GC])) Map.empty"
  unfolding calculate_distance_def
  by (rule fold_nested[where g = "\<lambda>i a D. D(gc_id (h ! a) \<mapsto>
        distance_row hav h GC (h ! a) (py_range (int i) (int i + w)) Map.empty)"
        and xss = "\<lambda>i. GC ! i"])

lemma pairs_mem:
  "p \<in> set (concat (map (\<lambda>i. map (Pair i) (GC ! i)) [0..<length GC]))
     \<longleftrightarrow> fst p < length GC \<and> snd p \<in> set (GC ! fst p)"
  by (cases p) auto

lemma fold_upd_Some_empty:
  "fold (\<lambda>b m. m(key b \<mapsto> val b)) bs Map.empty k = Some d \<Longrightarrow> \<exists>b \<in> set bs. key b = k \<and> d = val b"
  using fold_upd_Some[of key val bs Map.empty k d] by simp

lemma distance_entry:
  assumes "calculate_distance hav w h GC k1 = Some row" and "row k2 = Some d"
  shows "\<exists>i j a b. i < length GC \<and> a \<in> set (GC ! i) \<and> gc_id (h ! a) = k1
           \<and> i \<le> j \<and> int j < int i + w \<and> j < length GC \<and> b \<in> set (GC ! j) \<and> gc_id (h ! b) = k2
           \<and> d = hav (latlon (h ! a)) (latlon (h ! b))
           \<and> row = distance_row hav h GC (h ! a) (py_range (int i) (int i + w)) Map.empty"
proof -
  let ?pairs = "concat (map (\<lambda>i. map (Pair i) (GC ! i)) [0..<length GC])"
  from fold_upd_Some_empty[OF assms(1)[unfolded calculate_distance_fold]]
  obtain p where p: "p \<in> set ?pairs" "gc_id (h ! snd p) = k1"
    and row: "row = distance_row hav h GC (h ! snd p) (py_range (int (fst p)) (int (fst p) + w)) Map.empty"
    by blast
  from p(1) have i: "fst p < length GC" "snd p \<in> set (GC ! fst p)"
    using pairs_mem[THEN iffD1] by blast+
  from fold_upd_Some_empty[OF assms(2)[unfolded row distance_row_fold]]
  obtain b where b: "b \<in> set (concat (map (\<lambda>j. GC ! nat j)
            (takeWhile (\<lambda>j. nat j < length GC) (py_range (int (fst p)) (int (fst p) + w)))))"
    "gc_id (h ! b) = k2" "d = hav (latlon (h ! snd p)) (latlon (h ! b))" by blast
  from row_partitions_mem[OF b(1)] obtain j where
    "fst p \<le> j" "int j < int (fst p) + w" "j < length GC" "b \<in> set (GC ! j)" by blast
  with i p(2) b(2,3) row show ?thesis by blast
qed

lemma distance_lookup:
  assumes dist: "distinct (map (\<lambda>r. gc_id (h ! r)) (concat GC))"
    and i: "i < length GC" and a: "a \<in> set (GC ! i)"
    and j: "i \<le> j" "int j < int i + w" "j < length GC" and b: "b \<in> set (GC ! j)"
  shows "lookup2 (calculate_distance hav w h GC) (gc_id (h ! a)) (gc_id (h ! b))
           = Inr (hav (latlon (h ! a)) (latlon (h ! b)))"
proof -
  let ?pairs = "concat (map (\<lambda>i. map (Pair i) (GC ! i)) [0..<length GC])"
  let ?row = "\<lambda>p. distance_row hav h GC (h ! snd p) (py_range (int (fst p)) (int (fst p) + w)) Map.empty"
  have inj: "inj_on (\<lambda>r. gc_id (h ! r)) (set (concat GC))" and dc: "distinct (concat GC)"
    using dist by (simp_all add: distinct_map)
  have inGC: "k < length GC \<Longrightarrow> r \<in> set (GC ! k) \<Longrightarrow> r \<in> set (concat GC)" for k r
    by (auto intro: nth_mem)
  have "(i, a) \<in> set ?pairs" by (rule pairs_mem[THEN iffD2]) (use i a in simp)
  from fold_upd_mem[OF this, of "\<lambda>p. gc_id (h ! snd p)" ?row Map.empty]
  obtain p where p: "p \<in> set ?pairs" "gc_id (h ! snd p) = gc_id (h ! a)"
    and D: "calculate_distance hav w h GC (gc_id (h ! a)) = Some (?row p)"
    unfolding calculate_distance_fold snd_conv by blast
  from p(1) have pi: "fst p < length GC" "snd p \<in> set (GC ! fst p)"
    using pairs_mem[THEN iffD1] by blast+
  have sa: "snd p = a"
    using inj p(2) inGC[OF pi] inGC[OF i a] by (auto dest: inj_onD)
  have fi: "fst p = i"
    using distinct_concat_index[OF dc pi(1) i] pi(2) a sa by simp
  let ?bs = "concat (map (\<lambda>j. GC ! nat j)
                (takeWhile (\<lambda>j. nat j < length GC) (py_range (int i) (int i + w))))"
  have bmem: "b \<in> set ?bs" by (rule row_partitions_intro[OF j b])
  from fold_upd_mem[OF bmem, of "\<lambda>b. gc_id (h ! b)" "\<lambda>b. hav (latlon (h ! a)) (latlon (h ! b))" Map.empty]
  obtain b' where b': "b' \<in> set ?bs" "gc_id (h ! b') = gc_id (h ! b)"
    and R: "?row p (gc_id (h ! b)) = Some (hav (latlon (h ! a)) (latlon (h ! b')))"
    unfolding distance_row_fold sa fi by blast
  from row_partitions_mem[OF b'(1)] obtain j' where "j' < length GC" "b' \<in> set (GC ! j')" by blast
  then have "b' \<in> set (concat GC)" by (rule inGC)
  with inj b'(2) inGC[OF j(3) b] have "b' = b" by (auto dest: inj_onD)
  with D R show ?thesis by (simp add: lookup2_def)
qed

lemma window_at_mem:
  assumes "i0 \<in> set (py_range 0 (int (length GC) - w + 1))" and "r \<in> set (window_at GC w i0)"
  shows "\<exists>j. nat i0 \<le> j \<and> int j < i0 + w \<and> j < length GC \<and> r \<in> set (GC ! j)"
proof -
  from assms(2) obtain j' where j': "j' \<in> set (py_range i0 (i0 + w))" "r \<in> set (GC ! nat j')"
    by (auto simp: window_at_def)
  from window_index_in_range[OF assms(1) j'(1)] j'(1)
  have "nat i0 \<le> nat j' \<and> int (nat j') < i0 + w \<and> nat j' < length GC"
    by (auto simp: set_py_range)
  with j'(2) show ?thesis by blast
qed

lemma lookup2_Inr:
  "lookup2 D k1 k2 = Inr d \<Longrightarrow> \<exists>row. D k1 = Some row \<and> row k2 = Some d"
  by (auto simp: lookup2_def split: option.splits)

lemma weight_cases:
  "weight D z g1 g2 =
     (case lookup2 D (gc_id g1) (gc_id g2) of
        Inr d \<Rightarrow> Inr (1 * exp (- (real_of_int z + 1) * d))
      | Inl e \<Rightarrow> (case lookup2 D (gc_id g2) (gc_id g1) of
                    Inr d \<Rightarrow> Inr (1 * exp (- (real_of_int z + 1) * d))
                  | Inl e' \<Rightarrow> Inl e'))"
  by (simp add: weight_def)

lemma weight_in_window:
  assumes dist: "distinct (map (\<lambda>r. gc_id (h ! r)) (concat GC))"
    and i0: "i0 \<in> set (py_range 0 (int (length GC) - w + 1))"
    and r1: "r1 \<in> set (window_at GC w i0)" and r2: "r2 \<in> set (window_at GC w i0)"
  shows "weight (calculate_distance hav w h GC) z (h ! r1) (h ! r2)
           = Inr (exp (- (real_of_int z + 1) * hav (latlon (h ! r1)) (latlon (h ! r2))))
       \<or> weight (calculate_distance hav w h GC) z (h ! r1) (h ! r2)
           = Inr (exp (- (real_of_int z + 1) * hav (latlon (h ! r2)) (latlon (h ! r1))))"
proof -
  let ?D = "calculate_distance hav w h GC"
  have inj: "inj_on (\<lambda>r. gc_id (h ! r)) (set (concat GC))"
    using dist by (simp add: distinct_map)
  have inGC: "k < length GC \<Longrightarrow> r \<in> set (GC ! k) \<Longrightarrow> r \<in> set (concat GC)" for k r
    by (auto intro: nth_mem)
  from window_at_mem[OF i0 r1] obtain j1 where
    j1: "nat i0 \<le> j1" "int j1 < i0 + w" "j1 < length GC" "r1 \<in> set (GC ! j1)" by blast
  from window_at_mem[OF i0 r2] obtain j2 where
    j2: "nat i0 \<le> j2" "int j2 < i0 + w" "j2 < length GC" "r2 \<in> set (GC ! j2)" by blast
  have i0n: "0 \<le> i0" using i0 by (simp add: set_py_range)
  show ?thesis
  proof (cases "lookup2 ?D (gc_id (h ! r1)) (gc_id (h ! r2))")
    case (Inr d)
    from lookup2_Inr[OF Inr] obtain row where "?D (gc_id (h ! r1)) = Some row" "row (gc_id (h ! r2)) = Some d"
      by blast
    from distance_entry[OF this] obtain i j a b where
      ab: "i < length GC" "a \<in> set (GC ! i)" "gc_id (h ! a) = gc_id (h ! r1)"
          "j < length GC" "b \<in> set (GC ! j)" "gc_id (h ! b) = gc_id (h ! r2)"
          "d = hav (latlon (h ! a)) (latlon (h ! b))" by blast
    have "a = r1" using inj ab(3) inGC[OF ab(1,2)] inGC[OF j1(3,4)] by (auto dest: inj_onD)
    moreover have "b = r2" using inj ab(6) inGC[OF ab(4,5)] inGC[OF j2(3,4)] by (auto dest: inj_onD)
    ultimately have "d = hav (latlon (h ! r1)) (latlon (h ! r2))" using ab(7) by simp
    with Inr show ?thesis by (simp add: weight_cases)
  next
    case (Inl e)
    have "\<not> j1 \<le> j2"
    proof
      assume le: "j1 \<le> j2"
      have "int j2 < int j1 + w" using j1(1) j2(2) i0n by linarith
      from distance_lookup[OF dist j1(3,4) le this j2(3,4)] Inl show False by simp
    qed
    then have le: "j2 \<le> j1" by simp
    have "int j1 < int j2 + w" using j2(1) j1(2) i0n by linarith
    from distance_lookup[OF dist j2(3,4) le this j1(3,4)]
    have "lookup2 ?D (gc_id (h ! r2)) (gc_id (h ! r1)) = Inr (hav (latlon (h ! r2)) (latlon (h ! r1)))" .
    with Inl show ?thesis by (simp add: weight_cases)
  qed
qed

lemma create_getis_clusters_ABC:
  "create_getis_clusters K_ABC = Inr (GC_ABC, [g_A, g_B, g_C])"
  by (simp add: create_getis_clusters_def K_ABC_def GC_ABC_def GetisCluster_init_def
      cl_A_def cl_B_def cl_C_def g_A_def g_B_def g_C_def centroid_def)

lemma latlon_ABC:
  "latlon g_A = (0, 0)" "latlon g_B = (0, pi)" "latlon g_C = (0, 0)"
  by (simp_all add: latlon_def radians_def g_A_def g_B_def g_C_def)

lemma haversine_same: "haversine p p = 0"
  by (simp add: haversine_def)

lemma haversine_antipodal: "haversine (0, 0) (0, pi) = pi" "haversine (0, pi) (0, 0) = pi"
  by (simp_all add: haversine_def)

lemma distance_ABC: "calculate_distance haversine 2 [g_A, g_B, g_C] GC_ABC = D_ABC"
proof -
  have r: "py_range 0 2 = [0, 1]" "py_range 1 3 = [1, 2]" "py_range 2 4 = [2, 3]"
    by (simp_all add: py_range_def upto_0_1)
  have u: "[0..<3] = [0, 1, 2]" by (simp add: upt_rec)
  have i: "gc_id g_A = 0" "gc_id g_B = 1" "gc_id g_C = 2" by (simp_all add: g_A_def g_B_def g_C_def)
  show ?thesis
    by (simp add: calculate_distance_def GC_ABC_def u r latlon_ABC haversine_same
        haversine_antipodal i D_ABC_def)
qed

lemma gi_star_pair:
  assumes "0 < p" "p < 1" "x1 \<noteq> x2"
    and "x_bar = (x1 + x2) / 2" "S = \<bar>x1 - x2\<bar> / 2"
    and "swx = x1 + p * x2" "sw = 1 + p" "sw2 = 1 + p\<^sup>2"
  shows "gi_star 2 x_bar S (swx, sw, sw2) = Inr (sgn (x1 - x2))"
proof -
  have q: "2 * sw2 - sw\<^sup>2 = (1 - p)\<^sup>2"
    unfolding assms by (simp add: power2_eq_square algebra_simps)
  have d1: "py_div (real 2 * sw2 - sw\<^sup>2) (real 2 - 1) = Inr ((1 - p)\<^sup>2)"
    using q by (simp add: py_div_def)
  have d2: "py_sqrt ((1 - p)\<^sup>2) = Inr (1 - p)"
    using assms(2) by (simp add: py_sqrt_def)
  have num: "swx - x_bar * sw = (x1 - x2) * (1 - p) / 2"
    unfolding assms by (simp add: algebra_simps)
  have den: "S * (1 - p) \<noteq> 0" unfolding assms using assms(2,3) by simp
  have "(x1 - x2) * (1 - p) / 2 / (S * (1 - p)) = sgn (x1 - x2)"
    unfolding assms(5) using assms(2,3) by (simp add: sgn_real_def field_simps abs_if)
  then have d3: "py_div (swx - x_bar * sw) (S * (1 - p)) = Inr (sgn (x1 - x2))"
    using den unfolding num by (simp only: py_div_def if_False)
  show ?thesis
    unfolding gi_star_def by (simp only: d1 d2 d3 prod.case sum.case)
qed

lemma exp_pi_bounds: "0 < exp (- pi)" "exp (- pi) < 1"
  by simp_all

lemma sqrt_quarter: "sqrt (1 / 4) = 1 / 2"
  by (rule real_sqrt_unique) (simp_all add: power2_eq_square)

lemma weights_ABC:
  "weight D_ABC 0 g_A g_A = Inr 1" "weight D_ABC 0 g_A g_B = Inr (exp (- pi))"
  "weight D_ABC 0 g_B g_A = Inr (exp (- pi))" "weight D_ABC 0 g_B g_B = Inr 1"
  "weight D_ABC 0 g_B g_C = Inr (exp (- pi))" "weight D_ABC 0 g_C g_B = Inr (exp (- pi))"
  "weight D_ABC 0 g_C g_C = Inr 1"
  by (simp_all add: weight_def lookup2_def D_ABC_def g_A_def g_B_def g_C_def)

lemma score_eval:
  assumes "h ! r1 = g1" and "weighted_sums D h g1 Vj (0, 0, 0) = Inr acc"
    and "length Vj = n" and "gi_star n x_bar S acc = Inr g" and "critical_value a = Inr c"
    and "h[r1 := mark g c (g1\<lparr>gc_gi := Some g\<rparr>)] = h'"
  shows "score D a Vj x_bar S h r1 = Inr h'"
  using assms by (simp add: score_def)

lemma score_all_two:
  assumes "score D a Vj xb S h r1 = Inr h1" and "score D a Vj xb S h1 r2 = Inr h2"
  shows "score_all D a Vj xb S [r1, r2] h = Inr h2"
  using assms by simp

lemma getis_window_eval:
  assumes "Vj \<noteq> []"
    and "real_of_int (sum_list (map (\<lambda>r. gc_x (h ! r)) Vj)) / real (length Vj) = xb"
    and "py_sqrt (real_of_int (sum_list (map (\<lambda>r. (gc_x (h ! r))\<^sup>2) Vj)) / real (length Vj) - xb\<^sup>2) = Inr S"
    and "score_all D a Vj xb S Vj h = Inr h'"
  shows "getis_window D a h Vj = Inr h'"
  using assms by (simp add: getis_window_def Let_def)

lemma critical_005: "critical_value 0.05 = Inr 1.96"
  by (simp add: critical_value_def)

lemma mark_unit: "mark 1 1.96 g = g" "mark (- 1) 1.96 g = g"
  by (simp_all add: mark_def)

lemmas ABC_defs = g_A_def g_B_def g_C_def D_ABC_def weight_def lookup2_def lag_def

lemma sums_window0:
  "weighted_sums D_ABC [g_A, g_B, g_C] g_A [0, 1] (0, 0, 0)
     = Inr (1 + exp (- pi) * 2, 1 + exp (- pi), 1 + (exp (- pi))\<^sup>2)"
  "weighted_sums D_ABC [g_A\<lparr>gc_gi := Some (- 1)\<rparr>, g_B, g_C] g_B [0, 1] (0, 0, 0)
     = Inr (2 + exp (- pi) * 1, 1 + exp (- pi), 1 + (exp (- pi))\<^sup>2)"
  by (simp_all add: ABC_defs)

lemma sums_window1:
  "weighted_sums D_ABC [gA, g_B\<lparr>gc_gi := Some 1\<rparr>, g_C] (g_B\<lparr>gc_gi := Some 1\<rparr>) [1, 2] (0, 0, 0)
     = Inr (2 + exp (- pi) * 3, 1 + exp (- pi), 1 + (exp (- pi))\<^sup>2)"
  "weighted_sums D_ABC [gA, g_B\<lparr>gc_gi := Some (- 1)\<rparr>, g_C] g_C [1, 2] (0, 0, 0)
     = Inr (3 + exp (- pi) * 2, 1 + exp (- pi), 1 + (exp (- pi))\<^sup>2)"
  by (simp_all add: ABC_defs)

lemma gi_window0:
  "gi_star 2 (3 / 2) (1 / 2) (1 + exp (- pi) * 2, 1 + exp (- pi), 1 + (exp (- pi))\<^sup>2) = Inr (- 1)"
  "gi_star 2 (3 / 2) (1 / 2) (2 + exp (- pi) * 1, 1 + exp (- pi), 1 + (exp (- pi))\<^sup>2) = Inr 1"
  using gi_star_pair[OF exp_pi_bounds, of 1 2 "3 / 2" "1 / 2"]
    gi_star_pair[OF exp_pi_bounds, of 2 1 "3 / 2" "1 / 2"] by simp_all

lemma gi_window1:
  "gi_star 2 (5 / 2) (1 / 2) (2 + exp (- pi) * 3, 1 + exp (- pi), 1 + (exp (- pi))\<^sup>2) = Inr (- 1)"
  "gi_star 2 (5 / 2) (1 / 2) (3 + exp (- pi) * 2, 1 + exp (- pi), 1 + (exp (- pi))\<^sup>2) = Inr 1"
  using gi_star_pair[OF exp_pi_bounds, of 2 3 "5 / 2" "1 / 2"]
    gi_star_pair[OF exp_pi_bounds, of 3 2 "5 / 2" "1 / 2"] by simp_all

lemma window0_ABC:
  "getis_window D_ABC 0.05 [g_A, g_B, g_C] [0, 1]
     = Inr [g_A\<lparr>gc_gi := Some (- 1)\<rparr>, g_B\<lparr>gc_gi := Some 1\<rparr>, g_C]"
proof -
  have x: "real_of_int (sum_list (map (\<lambda>r. gc_x ([g_A, g_B, g_C] ! r)) [0, 1])) / real (length [0::nat, 1]) = 3 / 2"
    by (simp add: g_A_def g_B_def)
  have s: "py_sqrt (real_of_int (sum_list (map (\<lambda>r. (gc_x ([g_A, g_B, g_C] ! r))\<^sup>2) [0, 1]))
              / real (length [0::nat, 1]) - (3 / 2)\<^sup>2) = Inr (1 / 2)"
  proof -
    have "real_of_int (sum_list (map (\<lambda>r. (gc_x ([g_A, g_B, g_C] ! r))\<^sup>2) [0, 1]))
              / real (length [0::nat, 1]) - (3 / 2)\<^sup>2 = 1 / 4"
      by (simp add: g_A_def g_B_def power2_eq_square)
    then show ?thesis by (simp only: py_sqrt_def sqrt_quarter) simp
  qed
  have s1: "score D_ABC 0.05 [0, 1] (3 / 2) (1 / 2) [g_A, g_B, g_C] 0
              = Inr [g_A\<lparr>gc_gi := Some (- 1)\<rparr>, g_B, g_C]"
    by (rule score_eval[OF _ sums_window0(1) _ gi_window0(1) critical_005])
       (simp_all add: mark_def)
  have s2: "score D_ABC 0.05 [0, 1] (3 / 2) (1 / 2) [g_A\<lparr>gc_gi := Some (- 1)\<rparr>, g_B, g_C] 1
              = Inr [g_A\<lparr>gc_gi := Some (- 1)\<rparr>, g_B\<lparr>gc_gi := Some 1\<rparr>, g_C]"
    by (rule score_eval[OF _ sums_window0(2) _ gi_window0(2) critical_005])
       (simp_all add: mark_def)
  show ?thesis
    by (rule getis_window_eval[OF _ x s score_all_two[OF s1 s2]]) simp
qed

lemma window1_ABC:
  "getis_window D_ABC 0.05 h_ABC_window0 [1, 2] = Inr h_ABC_final"
proof -
  have x: "real_of_int (sum_list (map (\<lambda>r. gc_x (h_ABC_window0 ! r)) [1, 2])) / real (length [1::nat, 2]) = 5 / 2"
    by (simp add: h_ABC_window0_def g_B_def g_C_def)
  have s: "py_sqrt (real_of_int (sum_list (map (\<lambda>r. (gc_x (h_ABC_window0 ! r))\<^sup>2) [1, 2]))
              / real (length [1::nat, 2]) - (5 / 2)\<^sup>2) = Inr (1 / 2)"
  proof -
    have "real_of_int (sum_list (map (\<lambda>r. (gc_x (h_ABC_window0 ! r))\<^sup>2) [1, 2]))
              / real (length [1::nat, 2]) - (5 / 2)\<^sup>2 = 1 / 4"
      by (simp add: h_ABC_window0_def g_B_def g_C_def power2_eq_square)
    then show ?thesis by (simp only: py_sqrt_def sqrt_quarter) simp
  qed
  have s1: "score D_ABC 0.05 [1, 2] (5 / 2) (1 / 2) h_ABC_window0 1
              = Inr [g_A\<lparr>gc_gi := Some (- 1)\<rparr>, g_B\<lparr>gc_gi := Some (- 1)\<rparr>, g_C]"
    unfolding h_ABC_window0_def
    by (rule score_eval[OF _ sums_window1(1) _ gi_window1(1) critical_005])
       (simp_all add: mark_def)
  have s2: "score D_ABC 0.05 [1, 2] (5 / 2) (1 / 2)
              [g_A\<lparr>gc_gi := Some (- 1)\<rparr>, g_B\<lparr>gc_gi := Some (- 1)\<rparr>, g_C] 2 = Inr h_ABC_final"
    unfolding h_ABC_final_def
    by (rule score_eval[OF _ sums_window1(2) _ gi_window1(2) critical_005])
       (simp_all add: mark_def)
  show ?thesis
    by (rule getis_window_eval[OF _ x s score_all_two[OF s1 s2]]) simp
qed

lemma getis_loop_Inr:
  "getis_loop D a w GC js V0 h = Inr (V, h') \<Longrightarrow> V = V0 @ map (window_at GC w) js"
proof (induction js arbitrary: V0 h)
  case Nil
  then show ?case by simp
next
  case (Cons j js)
  from Cons.prems obtain h1 where
    "getis_loop D a w GC js (V0 @ [window_at GC w j]) h1 = Inr (V, h')"
    by (auto split: sum.splits)
  from Cons.IH[OF this] show ?case by simp
qed

lemma getis_loop_two:
  assumes "getis_window D a h (window_at GC w i) = Inr h1"
    and "getis_window D a h1 (window_at GC w j) = Inr h2"
  shows "getis_loop D a w GC [i, j] [] h = Inr ([window_at GC w i, window_at GC w j], h2)"
  using assms by simp

lemma windows_GC_ABC: "window_at GC_ABC 2 0 = [0, 1]" "window_at GC_ABC 2 1 = [1, 2]"
  by (simp_all add: window_at_def py_range_def GC_ABC_def upto_0_1)

lemma getis_ord_ABC:
  "calculate_getis_ord haversine 2 0.05 GC_ABC [g_A, g_B, g_C] = Inr ([[0, 1], [1, 2]], h_ABC_final)"
proof -
  have r: "py_range 0 (int (length GC_ABC) - 2 + 1) = [0, 1]"
    by (simp add: py_range_def GC_ABC_def upto_0_1)
  have w0: "getis_window D_ABC 0.05 [g_A, g_B, g_C] (window_at GC_ABC 2 0) = Inr h_ABC_window0"
    unfolding windows_GC_ABC h_ABC_window0_def by (rule window0_ABC)
  have w1: "getis_window D_ABC 0.05 h_ABC_window0 (window_at GC_ABC 2 1) = Inr h_ABC_final"
    unfolding windows_GC_ABC by (rule window1_ABC)
  show ?thesis
    unfolding calculate_getis_ord_def distance_ABC r
    using getis_loop_two[OF w0 w1] unfolding windows_GC_ABC .
qed

lemma window_count_nat: "window_count n w = nat (int n - w + 1)"
  by (simp add: window_count_def)

lemma window_at_subset:
  assumes "i \<in> set (py_range 0 (int (length K) - w + 1))" and "x \<in> set (window_at K w i)"
  shows "\<exists>Kj \<in> set K. x \<in> set Kj"
proof -
  from assms(2) obtain j where j: "j \<in> set (py_range i (i + w))" "x \<in> set (K ! nat j)"
    by (auto simp: window_at_def)
  from window_index_in_range[OF assms(1) j(1)] have "K ! nat j \<in> set K" by simp
  with j(2) show ?thesis by blast
qed

lemma v_clustering_total:
  assumes "\<forall>data. length (vfit data) = length data"
    and "\<forall>Kj \<in> set K. \<forall>cl \<in> set Kj. c_cpoints cl \<noteq> []"
  shows "\<exists>R N. v_clustering vfit w K = Inr (R, N)"
  unfolding v_clustering_def
proof (rule v_loop_total, rule ballI)
  fix j assume j: "j \<in> set (py_range 0 (int (length K) - w + 1))"
  have "\<forall>cl \<in> set (window_at K w j). c_cpoints cl \<noteq> []"
    using window_at_subset[OF j] assms(2) by blast
  moreover have "length (vfit (centroids (window_at K w j))) = length (window_at K w j)"
    using assms(1) by (simp add: centroids_def)
  ultimately show "\<exists>Rj Nj. v_window vfit (window_at K w j) = Inr (Rj, Nj)"
    by (intro v_window_total)
qed

lemma calculate_getis_ord_windows:
  assumes "calculate_getis_ord hav w a GC h = Inr (V, h')"
  shows "V = map (window_at GC w) (py_range 0 (int (length GC) - w + 1))"
  using getis_loop_Inr[OF assms[unfolded calculate_getis_ord_def]] by simp

text \<open>Claim C9. A successful \<open>v_clustering\<close> returns \<open>R\<close> and \<open>N\<close> of length \<open>n - w + 1\<close>
  (zero if \<open>w > n\<close>) and a successful \<open>calculate_getis_ord\<close> returns that many windows;
  \<open>v_clustering\<close> does return whenever the estimator gives one label per point and
  every cluster has members.\<close>

theorem window_result_counts:
  "(v_clustering vfit w K = Inr (R, N) \<longrightarrow>
      length R = window_count (length K) w \<and> length N = window_count (length K) w)
   \<and> (calculate_getis_ord hav w a GC h = Inr (V, h') \<longrightarrow> length V = window_count (length GC) w)
   \<and> ((\<forall>data. length (vfit data) = length data)
        \<and> (\<forall>Kj \<in> set K. \<forall>cl \<in> set Kj. c_cpoints cl \<noteq> [])
        \<longrightarrow> (\<exists>R' N'. v_clustering vfit w K = Inr (R', N')))"
proof (intro conjI impI)
  assume r: "v_clustering vfit w K = Inr (R, N)"
  from v_clustering_Inr(1,2)[OF r]
  show "length R = window_count (length K) w" "length N = window_count (length K) w"
    by (simp_all add: window_count_nat)
next
  assume "calculate_getis_ord hav w a GC h = Inr (V, h')"
  from calculate_getis_ord_windows[OF this]
  show "length V = window_count (length GC) w"
    by (simp add: window_count_nat length_py_range)
next
  assume "(\<forall>data. length (vfit data) = length data)
        \<and> (\<forall>Kj \<in> set K. \<forall>cl \<in> set Kj. c_cpoints cl \<noteq> [])"
  then show "\<exists>R' N'. v_clustering vfit w K = Inr (R', N')"
    using v_clustering_total by blast
qed

lemma v_clustering_ABC_5: "v_clustering west_fit 5 K_ABC = Inr ([], [])"
  by (simp add: v_clustering_def py_range_def K_ABC_def)

lemma getis_ord_ABC_5:
  "calculate_getis_ord haversine 5 0.05 GC_ABC [g_A, g_B, g_C] = Inr ([], [g_A, g_B, g_C])"
  by (simp add: calculate_getis_ord_def py_range_def GC_ABC_def)

text \<open>Claim C9 on three partitions with \<open>w = 2\<close> (two windows) and \<open>w = 5\<close> (none).\<close>

theorem window_result_counts_witness:
  "v_clustering west_fit 2 K_ABC = Inr (R_ABC, N_ABC) \<and> length K_ABC = 3
   \<and> length R_ABC = 2 \<and> length N_ABC = 2
   \<and> calculate_getis_ord haversine 2 0.05 GC_ABC [g_A, g_B, g_C] = Inr ([[0, 1], [1, 2]], h_ABC_final)
   \<and> length GC_ABC = 3 \<and> length [[0, 1], [1, 2::nat]] = 2
   \<and> window_count 3 2 = 2
   \<and> v_clustering west_fit 5 K_ABC = Inr ([], [])
   \<and> calculate_getis_ord haversine 5 0.05 GC_ABC [g_A, g_B, g_C] = Inr ([], [g_A, g_B, g_C])
   \<and> window_count 3 5 = 0"
proof -
  have l: "length K_ABC = 3" "length GC_ABC = 3" by (simp_all add: K_ABC_def GC_ABC_def)
  have f: "\<forall>data. length (west_fit data) = length data" by (simp add: west_fit_def)
  have n: "\<forall>Kj \<in> set K_ABC. \<forall>cl \<in> set Kj. c_cpoints cl \<noteq> []"
    by (simp add: K_ABC_def cl_A_def cl_B_def cl_C_def)
  have c: "window_count 3 2 = 2" "window_count 3 5 = 0" by (simp_all add: window_count_def)
  from window_result_counts[of west_fit 2 K_ABC R_ABC N_ABC haversine "0.05" GC_ABC
      "[g_A, g_B, g_C]" "[[0, 1], [1, 2]]" h_ABC_final]
    window_result_counts[of west_fit 5 K_ABC "[]" "[]" haversine "0.05" GC_ABC
      "[g_A, g_B, g_C]" "[]" "[g_A, g_B, g_C]"]
  show ?thesis
    using v_clustering_ABC getis_ord_ABC v_clustering_ABC_5 getis_ord_ABC_5 l f n c
    by simp
qed

lemma create_G_ABC: "create_G 10 trajs_ABC = Inr G_ABC"
  by (simp add: create_G_def py_range3_def trajs_ABC_def tr_A_def tr_B_def tr_C_def
      Trajectory_init_def G_ABC_def upt_3)

lemma g_clustering_ABC: "g_clustering one_cluster_fit G_ABC = Inr K_ABC"
  by (simp add: g_clustering_def G_ABC_def one_cluster_fit_def enumerate_eq_zip upt_rec py_nth_def
      Cluster_init_def centroid_def K_ABC_def cl_A_def cl_B_def cl_C_def)


lemma STHS_fit_ABC:
  "STHS_fit one_cluster_fit haversine 10 2 trajs_ABC 0.05 = Inr ([[0, 1], [1, 2]], h_ABC_final)"
  unfolding STHS_fit_def
  by (simp only: create_G_ABC g_clustering_ABC create_getis_clusters_ABC getis_ord_ABC
      sum.case prod.case)

lemma create_getis_row_Inr:
  "create_getis_row Kj h = Inr (GCj, h') \<Longrightarrow>
     h' = h @ map getis_of Kj \<and> GCj = [length h..<length h + length Kj]"
proof (induction Kj arbitrary: h GCj)
  case Nil
  then show ?case by simp
next
  case (Cons cluster Kj)
  from Cons.prems obtain g GCj' where
    g: "GetisCluster_init (c_id cluster) (c_cpoints cluster) (c_c cluster) = Inr g" and
    r: "create_getis_row Kj (h @ [g]) = Inr (GCj', h')" and
    G: "GCj = length h # GCj'"
    by (auto split: sum.splits)
  from g have "g = getis_of cluster"
    by (auto simp: GetisCluster_init_def getis_of_def split: if_splits)
  from Cons.IH[OF r] have h': "h' = (h @ [g]) @ map getis_of Kj"
    and G': "GCj' = [length (h @ [g])..<length (h @ [g]) + length Kj]" by blast+
  have u: "length h # [Suc (length h)..<Suc (length h + length Kj)]
             = [length h..<Suc (length h + length Kj)]"
    by (rule upt_conv_Cons[symmetric]) simp
  have "GCj = [length h..<length h + length (cluster # Kj)]"
    unfolding G G' using u by (simp del: upt_Suc)
  moreover have "h' = h @ map getis_of (cluster # Kj)"
    unfolding h' using \<open>g = getis_of cluster\<close> by simp
  ultimately show ?case by blast
qed

lemma create_getis_rows_Inr:
  "create_getis_rows K h = Inr (GC, h') \<Longrightarrow>
     h' = h @ map getis_of (concat K) \<and> concat GC = [length h..<length h'] \<and> map length GC = map length K"
proof (induction K arbitrary: h GC)
  case Nil
  then show ?case by simp
next
  case (Cons Kj K)
  from Cons.prems obtain GCj h1 GC' where
    r: "create_getis_row Kj h = Inr (GCj, h1)" and
    rs: "create_getis_rows K h1 = Inr (GC', h')" and
    G: "GC = GCj # GC'"
    by (auto split: sum.splits)
  from create_getis_row_Inr[OF r] have h1: "h1 = h @ map getis_of Kj"
    and GCj: "GCj = [length h..<length h + length Kj]" by simp_all
  from Cons.IH[OF rs] have h': "h' = h1 @ map getis_of (concat K)"
    and c: "concat GC' = [length h1..<length h']" and l: "map length GC' = map length K" by simp_all
  have "[length h..<(length h + length Kj) + length (concat K)]
          = [length h..<length h + length Kj]
            @ [length h + length Kj..<(length h + length Kj) + length (concat K)]"
    by (rule upt_add_eq_append) simp
  then have "[length h..<length h + length Kj] @ [length h1..<length h'] = [length h..<length h']"
    unfolding h1 h' by (simp add: add.assoc)
  then show ?case using h1 GCj h' c l G by simp
qed

lemma create_getis_clusters_Inr:
  assumes "create_getis_clusters K = Inr (GC, h)"
  shows "h = map getis_of (concat K)" "concat GC = [0..<length h]" "map length GC = map length K"
  using create_getis_rows_Inr[OF assms[unfolded create_getis_clusters_def]] by simp_all

text \<open>Claim C1 fails on the code. In the run below the three clusters come from the
  partitions starting at 0, 10 and 20 and carry these as \<open>t\<close>, but
  \<^verbatim>\<open>GetisCluster(cluster.id, cluster.cpoints, cluster.c)\<close> stores the label 0 as the
  \<open>t\<close> of each GetisCluster; the lag between \<open>A\<close> and \<open>B\<close> is 0 instead of 10 and their
  weight is \<open>exp(-(0+1) d)\<close>.\<close>

theorem getis_cluster_timestamp_is_label:
  "STHS_fit one_cluster_fit haversine 10 2 trajs_ABC 0.05 = Inr ([[0, 1], [1, 2]], h_ABC_final)
   \<and> create_G 10 trajs_ABC = Inr G_ABC \<and> map ts G_ABC = [0, 10, 20]
   \<and> g_clustering one_cluster_fit G_ABC = Inr K_ABC
   \<and> map c_t (concat K_ABC) = [0, 10, 20] \<and> map c_c (concat K_ABC) = [Some 0, Some 0, Some 0]
   \<and> create_getis_clusters K_ABC = Inr (GC_ABC, [g_A, g_B, g_C])
   \<and> map gc_t [g_A, g_B, g_C] = [Some 0, Some 0, Some 0]
   \<and> lag g_A g_B = Inr 0
   \<and> weight (calculate_distance haversine 2 [g_A, g_B, g_C] GC_ABC) 0 g_A g_B = Inr (exp (- pi))"
proof -
  have a: "map ts G_ABC = [0, 10, 20]" by (simp add: G_ABC_def)
  have b: "map c_t (concat K_ABC) = [0, 10, 20]"
    "map c_c (concat K_ABC) = [Some 0, Some 0, Some 0]"
    by (simp_all add: K_ABC_def cl_A_def cl_B_def cl_C_def)
  have c: "map gc_t [g_A, g_B, g_C] = [Some 0, Some 0, Some 0]" "lag g_A g_B = Inr 0"
    by (simp_all add: g_A_def g_B_def g_C_def lag_def)
  have d: "weight (calculate_distance haversine 2 [g_A, g_B, g_C] GC_ABC) 0 g_A g_B = Inr (exp (- pi))"
    unfolding distance_ABC by (rule weights_ABC(2))
  show ?thesis
    by (intro conjI STHS_fit_ABC create_G_ABC g_clustering_ABC create_getis_clusters_ABC a b c d)
qed

text \<open>Claim C2 fails on the code. The lists of \<open>V\<close> hold the references of \<open>GC\<close>, so a
  cluster of two windows is one object. In the run below cluster \<open>B\<close> (reference 1) gets
  \<open>Gi* = 1\<close> in the first window; the second window overwrites it with \<open>-1\<close>, and that is
  what the first window's result shows after the run.\<close>

theorem window_results_share_objects:
  "STHS_fit one_cluster_fit haversine 10 2 trajs_ABC 0.05 = Inr ([[0, 1], [1, 2]], h_ABC_final)
   \<and> create_getis_clusters K_ABC = Inr (GC_ABC, [g_A, g_B, g_C])
   \<and> getis_window (calculate_distance haversine 2 [g_A, g_B, g_C] GC_ABC) 0.05 [g_A, g_B, g_C]
        (window_at GC_ABC 2 0) = Inr h_ABC_window0
   \<and> map gc_gi (deref h_ABC_window0 [window_at GC_ABC 2 0] ! 0) = [Some (- 1), Some 1]
   \<and> calculate_getis_ord haversine 2 0.05 GC_ABC [g_A, g_B, g_C] = Inr ([[0, 1], [1, 2]], h_ABC_final)
   \<and> map gc_gi (deref h_ABC_final [[0, 1], [1, 2]] ! 0) = [Some (- 1), Some (- 1)]
   \<and> map gc_gi (deref h_ABC_final [[0, 1], [1, 2]] ! 1) = [Some (- 1), Some 1]"
proof -
  have w0: "getis_window (calculate_distance haversine 2 [g_A, g_B, g_C] GC_ABC) 0.05 [g_A, g_B, g_C]
        (window_at GC_ABC 2 0) = Inr h_ABC_window0"
    unfolding distance_ABC windows_GC_ABC h_ABC_window0_def by (rule window0_ABC)
  have d: "map gc_gi (deref h_ABC_window0 [window_at GC_ABC 2 0] ! 0) = [Some (- 1), Some 1]"
    "map gc_gi (deref h_ABC_final [[0, 1], [1, 2]] ! 0) = [Some (- 1), Some (- 1)]"
    "map gc_gi (deref h_ABC_final [[0, 1], [1, 2]] ! 1) = [Some (- 1), Some 1]"
    by (simp_all add: deref_def windows_GC_ABC h_ABC_window0_def h_ABC_final_def)
  show ?thesis
    by (intro conjI STHS_fit_ABC create_getis_clusters_ABC w0 d getis_ord_ABC)
qed

subsection \<open>Hot-spot analysis: cluster ids in the pipeline\<close>

lemma make_clusters_ids:
  "make_clusters t kvs i = Inr (Kj, i') \<Longrightarrow>
     map c_id Kj = map (\<lambda>k. i + int k) [0..<length Kj] \<and> i' = i + int (length Kj)"
proof (induction kvs arbitrary: i Kj)
  case Nil
  then show ?case by simp
next
  case (Cons kv kvs)
  obtain k v where kv: "kv = (k, v)" by (cases kv)
  from Cons.prems kv obtain c Kj' where
    c: "Cluster_init i (map (\<lambda>coords. \<lparr>cp_x = fst coords, cp_y = snd coords, cp_t = t, cp_c = k\<rparr>) v)
          t (Some k) = Inr c" and
    r: "make_clusters t kvs (i + 1) = Inr (Kj', i')" and
    K: "Kj = c # Kj'"
    by (auto split: sum.splits)
  from c have ci: "c_id c = i" by (auto simp: Cluster_init_def split: if_splits)
  from Cons.IH[OF r] have ids: "map c_id Kj' = map (\<lambda>k. i + 1 + int k) [0..<length Kj']"
    and i': "i' = i + 1 + int (length Kj')" by simp_all
  have "map (\<lambda>k. i + int k) [0..<length (c # Kj')]
          = (i + int 0) # map (\<lambda>k. i + int k) (map Suc [0..<length Kj'])"
    by (simp only: length_Cons upt_conv_Cons[OF zero_less_Suc] map_Suc_upt[symmetric] list.map)
  also have "\<dots> = i # map (\<lambda>k. i + 1 + int k) [0..<length Kj']" by (simp add: o_def)
  finally have "map c_id Kj = map (\<lambda>k. i + int k) [0..<length Kj]"
    unfolding K using ci ids by simp
  moreover have "i' = i + int (length Kj)" unfolding K using i' by simp
  ultimately show ?case by blast
qed

lemma g_loop_Cons_Inr:
  assumes "g_loop gfit (Gj # G) i = Inr K"
  shows "\<exists>Kj i' K'. K = Kj # K' \<and> g_loop gfit G i' = Inr K'
           \<and> (Kj = [] \<and> i' = i \<or> (\<exists>clusters. make_clusters (ts Gj) clusters i = Inr (Kj, i')))"
proof (cases "tpoints Gj = []")
  case True
  then have e: "g_loop gfit (Gj # G) i
      = (case g_loop gfit G i of Inl e \<Rightarrow> Inl e | Inr K \<Rightarrow> Inr ([] # K))"
    by simp
  show ?thesis
  proof (cases "g_loop gfit G i")
    case (Inl err)
    with assms e show ?thesis by simp
  next
    case (Inr K')
    with assms e have "K = [] # K'" by simp
    with Inr show ?thesis by blast
  qed
next
  case False
  define data where "data = map (\<lambda>m. (tp_x m, tp_y m)) (tpoints Gj)"
  have e: "g_loop gfit (Gj # G) i
      = (case group_points (gfit data) (enumerate 0 data) [] of
           Inl e \<Rightarrow> Inl e
         | Inr clusters \<Rightarrow>
             (case make_clusters (ts Gj) clusters i of
                Inl e \<Rightarrow> Inl e
              | Inr (Kj, i') \<Rightarrow>
                  (case g_loop gfit G i' of Inl e \<Rightarrow> Inl e | Inr K \<Rightarrow> Inr (Kj # K))))"
    using False unfolding data_def
    by (simp only: g_loop.simps Let_def length_map length_0_conv map_is_Nil_conv if_False)
  show ?thesis
  proof (cases "group_points (gfit data) (enumerate 0 data) []")
    case (Inl err)
    with assms e show ?thesis by simp
  next
    case (Inr clusters)
    note gp = Inr
    show ?thesis
    proof (cases "make_clusters (ts Gj) clusters i")
      case (Inl err)
      with assms e gp show ?thesis by simp
    next
      case (Inr res)
      obtain Kj i' where res: "res = (Kj, i')" by (cases res)
      note mc = Inr[unfolded res]
      show ?thesis
      proof (cases "g_loop gfit G i'")
        case (Inl err)
        with assms e gp mc show ?thesis by simp
      next
        case (Inr K')
        with assms e gp mc have "K = Kj # K'" by simp
        with Inr mc show ?thesis by blast
      qed
    qed
  qed
qed

lemma g_loop_ids:
  "g_loop gfit G i = Inr K \<Longrightarrow>
     map c_id (concat K) = map (\<lambda>k. i + int k) [0..<length (concat K)]"
proof (induction G arbitrary: i K)
  case Nil
  then show ?case by simp
next
  case (Cons Gj G)
  from g_loop_Cons_Inr[OF Cons.prems] obtain Kj i' K' where
    K: "K = Kj # K'" and r: "g_loop gfit G i' = Inr K'" and
    m: "Kj = [] \<and> i' = i \<or> (\<exists>clusters. make_clusters (ts Gj) clusters i = Inr (Kj, i'))"
    by blast
  have a: "map c_id Kj = map (\<lambda>k. i + int k) [0..<length Kj]" and i': "i' = i + int (length Kj)"
    using m make_clusters_ids by fastforce+
  from Cons.IH[OF r] have b: "map c_id (concat K') = map (\<lambda>k. i' + int k) [0..<length (concat K')]" .
  have "[0..<length Kj + length (concat K')]
          = [0..<length Kj] @ map (\<lambda>k. k + length Kj) [0..<length (concat K')]"
    by (simp only: upt_add_eq_append[OF le0] map_add_upt add_0 add.commute[of "length (concat K')"])
  then have "map (\<lambda>k. i + int k) [0..<length Kj + length (concat K')]
      = map (\<lambda>k. i + int k) [0..<length Kj] @ map (\<lambda>k. i' + int k) [0..<length (concat K')]"
    unfolding i' by (simp add: o_def add.assoc add.commute)
  then show ?case unfolding K using a b by simp
qed

lemma pipeline_ids:
  assumes "g_clustering gfit G = Inr K" and "create_getis_clusters K = Inr (GC, h)"
  shows "map (\<lambda>r. gc_id (h ! r)) (concat GC) = map int [0..<length h]"
    and "distinct (map (\<lambda>r. gc_id (h ! r)) (concat GC))"
proof -
  from g_loop_ids[OF assms(1)[unfolded g_clustering_def]]
  have k: "map c_id (concat K) = map int [0..<length (concat K)]" by simp
  from create_getis_clusters_Inr(1,2)[OF assms(2)]
  have h: "h = map getis_of (concat K)" and c: "concat GC = [0..<length h]" by simp_all
  have g: "gc_id (getis_of cl) = c_id cl" for cl by (simp add: getis_of_def)
  have "map (\<lambda>r. gc_id (h ! r)) [0..<length h] = map gc_id (map (\<lambda>r. h ! r) [0..<length h])"
    by (simp only: map_map o_def)
  also have "\<dots> = map gc_id h" by (simp only: map_nth)
  also have "\<dots> = map c_id (concat K)" unfolding h by (simp only: map_map o_def g)
  also have "\<dots> = map int [0..<length h]" unfolding k h by (simp only: length_map)
  finally show e: "map (\<lambda>r. gc_id (h ! r)) (concat GC) = map int [0..<length h]" unfolding c .
  show "distinct (map (\<lambda>r. gc_id (h ! r)) (concat GC))"
    unfolding e by (simp add: distinct_map)
qed

text \<open>Claim C8. Every distance the table stores is the haversine distance between a
  cluster \<open>a\<close> of some partition \<open>i\<close> and a cluster \<open>b\<close> of a partition \<open>j\<close> with
  \<open>i \<le> j < i + w\<close> (within the claimed range \<open>i..i+w\<close>), stored under the key
  \<open>(a.id, b.id)\<close>. The clusters that \<open>g_clustering\<close> and \<open>create_getis_clusters\<close> build
  have pairwise different ids, and then for every two clusters of one window the lookup of
  \<open>weight\<close> succeeds in one of the two key orders and yields the weight of their distance;
  the same holds for any \<open>GC\<close> whose ids are pairwise different.\<close>

theorem distance_table_covers_windows_only:
  "(\<forall>k1 k2 row d.
      calculate_distance hav w h GC k1 = Some row \<and> row k2 = Some d \<longrightarrow>
      (\<exists>i j a b. i < length GC \<and> a \<in> set (GC ! i) \<and> gc_id (h ! a) = k1
          \<and> i \<le> j \<and> int j < int i + w \<and> j < length GC \<and> b \<in> set (GC ! j) \<and> gc_id (h ! b) = k2
          \<and> d = hav (latlon (h ! a)) (latlon (h ! b))))
   \<and> (g_clustering gfit G = Inr K \<and> create_getis_clusters K = Inr (GC, h) \<longrightarrow>
       distinct (map (\<lambda>r. gc_id (h ! r)) (concat GC))
       \<and> (\<forall>i0 \<in> set (py_range 0 (int (length GC) - w + 1)).
          \<forall>r1 \<in> set (window_at GC w i0). \<forall>r2 \<in> set (window_at GC w i0). \<forall>z.
            weight (calculate_distance hav w h GC) z (h ! r1) (h ! r2)
              = Inr (exp (- (real_of_int z + 1) * hav (latlon (h ! r1)) (latlon (h ! r2))))
          \<or> weight (calculate_distance hav w h GC) z (h ! r1) (h ! r2)
              = Inr (exp (- (real_of_int z + 1) * hav (latlon (h ! r2)) (latlon (h ! r1))))))
   \<and> (distinct (map (\<lambda>r. gc_id (h ! r)) (concat GC)) \<longrightarrow>
       (\<forall>i0 \<in> set (py_range 0 (int (length GC) - w + 1)).
        \<forall>r1 \<in> set (window_at GC w i0). \<forall>r2 \<in> set (window_at GC w i0). \<forall>z.
          weight (calculate_distance hav w h GC) z (h ! r1) (h ! r2)
            = Inr (exp (- (real_of_int z + 1) * hav (latlon (h ! r1)) (latlon (h ! r2))))
        \<or> weight (calculate_distance hav w h GC) z (h ! r1) (h ! r2)
            = Inr (exp (- (real_of_int z + 1) * hav (latlon (h ! r2)) (latlon (h ! r1))))))"
proof -
  have p1: "\<forall>k1 k2 row d.
      calculate_distance hav w h GC k1 = Some row \<and> row k2 = Some d \<longrightarrow>
      (\<exists>i j a b. i < length GC \<and> a \<in> set (GC ! i) \<and> gc_id (h ! a) = k1
          \<and> i \<le> j \<and> int j < int i + w \<and> j < length GC \<and> b \<in> set (GC ! j) \<and> gc_id (h ! b) = k2
          \<and> d = hav (latlon (h ! a)) (latlon (h ! b)))"
  proof (intro allI impI)
    fix k1 k2 row d
    assume "calculate_distance hav w h GC k1 = Some row \<and> row k2 = Some d"
    then have "calculate_distance hav w h GC k1 = Some row" "row k2 = Some d" by simp_all
    from distance_entry[OF this]
    show "\<exists>i j a b. i < length GC \<and> a \<in> set (GC ! i) \<and> gc_id (h ! a) = k1
          \<and> i \<le> j \<and> int j < int i + w \<and> j < length GC \<and> b \<in> set (GC ! j) \<and> gc_id (h ! b) = k2
          \<and> d = hav (latlon (h ! a)) (latlon (h ! b))" by blast
  qed
  have p3: "distinct (map (\<lambda>r. gc_id (h ! r)) (concat GC)) \<longrightarrow>
       (\<forall>i0 \<in> set (py_range 0 (int (length GC) - w + 1)).
        \<forall>r1 \<in> set (window_at GC w i0). \<forall>r2 \<in> set (window_at GC w i0). \<forall>z.
          weight (calculate_distance hav w h GC) z (h ! r1) (h ! r2)
            = Inr (exp (- (real_of_int z + 1) * hav (latlon (h ! r1)) (latlon (h ! r2))))
        \<or> weight (calculate_distance hav w h GC) z (h ! r1) (h ! r2)
            = Inr (exp (- (real_of_int z + 1) * hav (latlon (h ! r2)) (latlon (h ! r1)))))"
  proof (intro impI ballI allI)
    fix i0 r1 r2 z
    assume "distinct (map (\<lambda>r. gc_id (h ! r)) (concat GC))"
      "i0 \<in> set (py_range 0 (int (length GC) - w + 1))"
      "r1 \<in> set (window_at GC w i0)" "r2 \<in> set (window_at GC w i0)"
    then show "weight (calculate_distance hav w h GC) z (h ! r1) (h ! r2)
            = Inr (exp (- (real_of_int z + 1) * hav (latlon (h ! r1)) (latlon (h ! r2))))
        \<or> weight (calculate_distance hav w h GC) z (h ! r1) (h ! r2)
            = Inr (exp (- (real_of_int z + 1) * hav (latlon (h ! r2)) (latlon (h ! r1))))"
      by (rule weight_in_window)
  qed
  have p2: "g_clustering gfit G = Inr K \<and> create_getis_clusters K = Inr (GC, h) \<longrightarrow>
       distinct (map (\<lambda>r. gc_id (h ! r)) (concat GC))
       \<and> (\<forall>i0 \<in> set (py_range 0 (int (length GC) - w + 1)).
          \<forall>r1 \<in> set (window_at GC w i0). \<forall>r2 \<in> set (window_at GC w i0). \<forall>z.
            weight (calculate_distance hav w h GC) z (h ! r1) (h ! r2)
              = Inr (exp (- (real_of_int z + 1) * hav (latlon (h ! r1)) (latlon (h ! r2))))
          \<or> weight (calculate_distance hav w h GC) z (h ! r1) (h ! r2)
              = Inr (exp (- (real_of_int z + 1) * hav (latlon (h ! r2)) (latlon (h ! r1)))))"
  proof
    assume "g_clustering gfit G = Inr K \<and> create_getis_clusters K = Inr (GC, h)"
    then have "g_clustering gfit G = Inr K" "create_getis_clusters K = Inr (GC, h)" by simp_all
    from pipeline_ids(2)[OF this] have d: "distinct (map (\<lambda>r. gc_id (h ! r)) (concat GC))" .
    from p3[THEN mp, OF d] d
    show "distinct (map (\<lambda>r. gc_id (h ! r)) (concat GC))
       \<and> (\<forall>i0 \<in> set (py_range 0 (int (length GC) - w + 1)).
          \<forall>r1 \<in> set (window_at GC w i0). \<forall>r2 \<in> set (window_at GC w i0). \<forall>z.
            weight (calculate_distance hav w h GC) z (h ! r1) (h ! r2)
              = Inr (exp (- (real_of_int z + 1) * hav (latlon (h ! r1)) (latlon (h ! r2))))
          \<or> weight (calculate_distance hav w h GC) z (h ! r1) (h ! r2)
              = Inr (exp (- (real_of_int z + 1) * hav (latlon (h ! r2)) (latlon (h ! r1)))))"
      by (rule conjI[rotated])
  qed
  show ?thesis by (intro conjI p1 p2 p3)
qed

text \<open>Claim C8 at the second window of the run on \<open>trajs_ABC\<close>: the clusters of the
  pipeline have the ids 0, 1, 2, and the pair \<open>(C, B)\<close> is found under the key \<open>(1, 2)\<close>
  after the key \<open>(2, 1)\<close> has failed.\<close>

theorem distance_table_covers_windows_only_witness:
  "g_clustering one_cluster_fit G_ABC = Inr K_ABC
   \<and> create_getis_clusters K_ABC = Inr (GC_ABC, [g_A, g_B, g_C])
   \<and> calculate_distance haversine 2 [g_A, g_B, g_C] GC_ABC = D_ABC
   \<and> D_ABC 0 = Some [0 \<mapsto> 0, 1 \<mapsto> pi] \<and> [0 \<mapsto> 0, 1 \<mapsto> pi] (1::int) = Some pi
   \<and> distinct (map (\<lambda>r. gc_id ([g_A, g_B, g_C] ! r)) (concat GC_ABC))
   \<and> map (\<lambda>r. gc_id ([g_A, g_B, g_C] ! r)) (concat GC_ABC) = [0, 1, 2]
   \<and> (1::int) \<in> set (py_range 0 (int (length GC_ABC) - 2 + 1))
   \<and> (2::nat) \<in> set (window_at GC_ABC 2 1) \<and> (1::nat) \<in> set (window_at GC_ABC 2 1)
   \<and> lookup2 D_ABC 2 1 = Inl KeyError \<and> lookup2 D_ABC 1 2 = Inr pi
   \<and> weight (calculate_distance haversine 2 [g_A, g_B, g_C] GC_ABC) 0 g_C g_B = Inr (exp (- pi))
   \<and> haversine (latlon g_B) (latlon g_C) = pi"
proof -
  note T = distance_table_covers_windows_only[of haversine 2 "[g_A, g_B, g_C]" GC_ABC
      one_cluster_fit G_ABC K_ABC]
  have run: "g_clustering one_cluster_fit G_ABC = Inr K_ABC
      \<and> create_getis_clusters K_ABC = Inr (GC_ABC, [g_A, g_B, g_C])"
    by (intro conjI g_clustering_ABC create_getis_clusters_ABC)
  note P = T[THEN conjunct2, THEN conjunct1, THEN mp, OF run]
  have d: "distinct (map (\<lambda>r. gc_id ([g_A, g_B, g_C] ! r)) (concat GC_ABC))"
    by (rule P[THEN conjunct1])
  have ids: "map (\<lambda>r. gc_id ([g_A, g_B, g_C] ! r)) (concat GC_ABC) = [0, 1, 2]"
    by (simp add: GC_ABC_def g_A_def g_B_def g_C_def)
  have i: "(1::int) \<in> set (py_range 0 (int (length GC_ABC) - 2 + 1))"
    by (simp add: py_range_def GC_ABC_def)
  have m: "(2::nat) \<in> set (window_at GC_ABC 2 1)" "(1::nat) \<in> set (window_at GC_ABC 2 1)"
    by (simp_all add: windows_GC_ABC)
  have hv: "haversine (latlon g_B) (latlon g_C) = pi"
    by (simp add: latlon_ABC haversine_antipodal)
  have lk: "lookup2 D_ABC 2 1 = Inl KeyError" "lookup2 D_ABC 1 2 = Inr pi"
    "D_ABC 0 = Some [0 \<mapsto> 0, 1 \<mapsto> pi]" "[0 \<mapsto> 0, 1 \<mapsto> pi] (1::int) = Some pi"
    by (simp_all add: lookup2_def D_ABC_def)
  from P[THEN conjunct2, THEN bspec, OF i, THEN bspec, OF m(1), THEN bspec, OF m(2), THEN spec, of 0]
  have "weight (calculate_distance haversine 2 [g_A, g_B, g_C] GC_ABC) 0 ([g_A, g_B, g_C] ! 2) ([g_A, g_B, g_C] ! 1)
          = Inr (exp (- (real_of_int 0 + 1) * haversine (latlon ([g_A, g_B, g_C] ! 2)) (latlon ([g_A, g_B, g_C] ! 1))))
      \<or> weight (calculate_distance haversine 2 [g_A, g_B, g_C] GC_ABC) 0 ([g_A, g_B, g_C] ! 2) ([g_A, g_B, g_C] ! 1)
          = Inr (exp (- (real_of_int 0 + 1) * haversine (latlon ([g_A, g_B, g_C] ! 1)) (latlon ([g_A, g_B, g_C] ! 2))))" .
  then have wt: "weight (calculate_distance haversine 2 [g_A, g_B, g_C] GC_ABC) 0 g_C g_B = Inr (exp (- pi))"
    by (simp add: latlon_ABC haversine_antipodal)
  show ?thesis
    by (intro conjI g_clustering_ABC create_getis_clusters_ABC distance_ABC lk(3,4) d ids i m lk(1,2) wt hv)
qed

subsection \<open>Window aggregation: the ids of one cluster in two windows\<close>

lemma take_split_nth:
  assumes "m < n" and "m < length xs"
  shows "take n xs = take m xs @ xs ! m # take (n - Suc m) (drop (Suc m) xs)"
proof -
  have n: "n = m + Suc (n - Suc m)" using assms(1) by simp
  have "take n xs = take m xs @ take (Suc (n - Suc m)) (drop m xs)"
    by (subst n) (simp only: take_add)
  also have "drop m xs = xs ! m # drop (Suc m) xs"
    by (rule Cons_nth_drop_Suc[OF assms(2), symmetric])
  also have "take (Suc (n - Suc m)) (xs ! m # drop (Suc m) xs)
      = xs ! m # take (n - Suc m) (drop (Suc m) xs)" by (rule take_Suc_Cons)
  finally show ?thesis .
qed

lemma window_at_position:
  assumes "int i + w \<le> int (length K)" and "i \<le> j" and "int j < int i + w"
    and "p < length (K ! j)"
  shows "window_id K i j p < length (window_at K w (int i))"
    and "window_at K w (int i) ! window_id K i j p = K ! j ! p"
proof -
  let ?xs = "drop i K" and ?m = "j - i"
  have W: "window_at K w (int i) = concat (take (nat w) ?xs)"
    using window_at_take_drop[of "int i" w K] assms(1) by simp
  have m1: "?m < nat w" using assms(1,2,3) by linarith
  have "j - i < length K - i" using assms(1,2,3) by linarith
  then have m2: "?m < length ?xs" by (simp only: length_drop)
  note m = m1 m2
  have x: "?xs ! ?m = K ! j" using assms(1,2,3) by simp
  from take_split_nth[OF m] have
    "concat (take (nat w) ?xs)
       = concat (take ?m ?xs) @ K ! j @ concat (take (nat w - Suc ?m) (drop (Suc ?m) ?xs))"
    unfolding x by simp
  then have e: "window_at K w (int i)
       = concat (take ?m ?xs) @ K ! j @ concat (take (nat w - Suc ?m) (drop (Suc ?m) ?xs))"
    unfolding W .
  show "window_id K i j p < length (window_at K w (int i))"
    unfolding e window_id_def using assms(4) by simp
  show "window_at K w (int i) ! window_id K i j p = K ! j ! p"
    unfolding e window_id_def using assms(4) by (simp add: nth_append)
qed

lemma take_drop_upt:
  assumes "i \<le> i'" and "i' \<le> length K"
  shows "take (i' - i) (drop i K) = map (\<lambda>k. K ! k) [i..<i']"
proof (rule nth_equalityI)
  show "length (take (i' - i) (drop i K)) = length (map (\<lambda>k. K ! k) [i..<i'])"
    using assms by simp
next
  fix n assume "n < length (take (i' - i) (drop i K))"
  then have n: "n < i' - i" by simp
  then show "take (i' - i) (drop i K) ! n = map (\<lambda>k. K ! k) [i..<i'] ! n"
    using assms by simp
qed

lemma window_id_shift:
  assumes "i \<le> i'" and "i' \<le> j" and "j < length K"
  shows "window_id K i j p = window_id K i' j p + length (concat (take (i' - i) (drop i K)))"
    and "window_id K i j p = window_id K i' j p \<longleftrightarrow> (\<forall>k. i \<le> k \<and> k < i' \<longrightarrow> K ! k = [])"
proof -
  have "j - i = (i' - i) + (j - i')" using assms(1,2) by simp
  then have "take (j - i) (drop i K) = take (i' - i) (drop i K) @ take (j - i') (drop (i' - i) (drop i K))"
    by (simp only: take_add)
  moreover have "drop (i' - i) (drop i K) = drop i' K" using assms(1) by simp
  ultimately have t: "take (j - i) (drop i K) = take (i' - i) (drop i K) @ take (j - i') (drop i' K)"
    by simp
  show s: "window_id K i j p = window_id K i' j p + length (concat (take (i' - i) (drop i K)))"
    unfolding window_id_def t by simp
  have i': "i' \<le> length K" using assms(2,3) by simp
  have "length (concat (take (i' - i) (drop i K))) = 0 \<longleftrightarrow> (\<forall>k. i \<le> k \<and> k < i' \<longrightarrow> K ! k = [])"
    unfolding take_drop_upt[OF assms(1) i'] by auto
  then show "window_id K i j p = window_id K i' j p \<longleftrightarrow> (\<forall>k. i \<le> k \<and> k < i' \<longrightarrow> K ! k = [])"
    unfolding s by simp
qed

lemma rewrapped_in_window:
  assumes "v_window vfit Vj = Inr (Rj, Nj)" and "q < length Vj"
  shows "\<exists>c \<in> set Rj \<union> set Nj. c_id c = int q \<and> c_cpoints c = c_cpoints (Vj ! q)
            \<and> c_t c = c_t (Vj ! q)"
proof -
  let ?L = "vfit (centroids Vj)"
  have ne: "Vj \<noteq> []" using assms(2) by auto
  from v_window_Inr[OF assms(1)] ne have
    R: "Rj = map (relabel ?L) (filter (\<lambda>p. ?L ! fst p \<noteq> - 1) (enumerate 0 Vj))" and
    N: "Nj = map (relabel ?L) (filter (\<lambda>p. ?L ! fst p = - 1) (enumerate 0 Vj))"
    by simp_all
  have mem: "(q, Vj ! q) \<in> set (enumerate 0 Vj)" using assms(2) by (simp add: in_set_enumerate_eq)
  have "relabel ?L (q, Vj ! q) \<in> set Rj \<union> set Nj"
  proof (cases "?L ! q = - 1")
    case True
    with mem have "(q, Vj ! q) \<in> set (filter (\<lambda>p. ?L ! fst p = - 1) (enumerate 0 Vj))" by simp
    then have "relabel ?L (q, Vj ! q) \<in> set Nj" unfolding N by (simp only: set_map) (rule imageI)
    then show ?thesis by simp
  next
    case False
    with mem have "(q, Vj ! q) \<in> set (filter (\<lambda>p. ?L ! fst p \<noteq> - 1) (enumerate 0 Vj))" by simp
    then have "relabel ?L (q, Vj ! q) \<in> set Rj" unfolding R by (simp only: set_map) (rule imageI)
    then show ?thesis by simp
  qed
  moreover have "c_id (relabel ?L (q, Vj ! q)) = int q"
    "c_cpoints (relabel ?L (q, Vj ! q)) = c_cpoints (Vj ! q)"
    "c_t (relabel ?L (q, Vj ! q)) = c_t (Vj ! q)"
    by (simp_all add: relabel_def)
  ultimately show ?thesis by blast
qed

text \<open>Claim C10, as amended. In a successful run, every cluster of \<open>R[i]\<close> and \<open>N[i]\<close> has as
  id its 0-based position in the window union \<open>Vj\<close> (its members and timestamp are those of
  the cluster at that position, whatever id that one had), and the ids of \<open>R[i]\<close> and \<open>N[i]\<close>
  together are exactly \<open>0, ..., |Vj| - 1\<close>, each once: every window numbers its clusters
  from 0 again. The cluster at position \<open>p\<close> of a partition \<open>j\<close> of the window is re-wrapped
  in \<open>R[i]\<close> or \<open>N[i]\<close> with the id \<open>window_id K i j p\<close>, the number of clusters of the
  partitions \<open>i, ..., j - 1\<close> plus \<open>p\<close>. So between two windows \<open>i \<le> i'\<close> that both hold
  partition \<open>j\<close> the id of that cluster drops by the number of clusters in the partitions
  \<open>i, ..., i' - 1\<close>: it is the same id exactly when these partitions have no cluster.\<close>

theorem window_ids_are_positions:
  assumes "v_clustering vfit w K = Inr (R, N)" and "i < length R"
  shows "(\<forall>c \<in> set (R ! i) \<union> set (N ! i).
            0 \<le> c_id c \<and> nat (c_id c) < length (window_at K w (int i))
          \<and> c_cpoints c = c_cpoints (window_at K w (int i) ! nat (c_id c))
          \<and> c_t c = c_t (window_at K w (int i) ! nat (c_id c)))
       \<and> distinct (map c_id (R ! i @ N ! i))
       \<and> set (map c_id (R ! i @ N ! i)) = int ` {0..<length (window_at K w (int i))}
       \<and> (\<forall>j p. i \<le> j \<and> int j < int i + w \<and> p < length (K ! j) \<longrightarrow>
            window_at K w (int i) ! window_id K i j p = K ! j ! p
          \<and> (\<exists>c \<in> set (R ! i) \<union> set (N ! i). c_id c = int (window_id K i j p)
                \<and> c_cpoints c = c_cpoints (K ! j ! p) \<and> c_t c = c_t (K ! j ! p)))
       \<and> (\<forall>i' j p. i \<le> i' \<and> i' \<le> j \<and> int j < int i + w \<longrightarrow>
            window_id K i j p = window_id K i' j p + length (concat (take (i' - i) (drop i K)))
          \<and> (window_id K i j p = window_id K i' j p
               \<longleftrightarrow> (\<forall>k. i \<le> k \<and> k < i' \<longrightarrow> K ! k = [])))"
proof -
  let ?Vj = "window_at K w (int i)"
  let ?L = "vfit (centroids ?Vj)"
  note win = v_clustering_Inr(3)[OF assms]
  have "i < nat (int (length K) - w + 1)" using assms(2) v_clustering_Inr(1)[OF assms(1)] by simp
  then have iw: "int i + w \<le> int (length K)" by linarith
  have old: "(\<forall>c \<in> set (R ! i) \<union> set (N ! i).
            0 \<le> c_id c \<and> nat (c_id c) < length ?Vj
          \<and> c_cpoints c = c_cpoints (?Vj ! nat (c_id c)) \<and> c_t c = c_t (?Vj ! nat (c_id c)))
       \<and> distinct (map c_id (R ! i @ N ! i))
       \<and> set (map c_id (R ! i @ N ! i)) = int ` {0..<length ?Vj}"
  proof (cases "?Vj = []")
    case True
    with v_window_Inr[OF win] show ?thesis by simp
  next
    case False
    from v_window_Inr[OF win] False have
      R: "R ! i = map (relabel ?L) (filter (\<lambda>p. ?L ! fst p \<noteq> - 1) (enumerate 0 ?Vj))" and
      N: "N ! i = map (relabel ?L) (filter (\<lambda>p. ?L ! fst p = - 1) (enumerate 0 ?Vj))"
      by simp_all
    have idR: "map c_id (R ! i) = map int (filter (\<lambda>j. ?L ! j \<noteq> - 1) [0..<length ?Vj])"
      unfolding R by (rule relabel_ids)
    have idN: "map c_id (N ! i) = map int (filter (\<lambda>j. ?L ! j = - 1) [0..<length ?Vj])"
      unfolding N by (rule relabel_ids)
    have mem: "\<forall>c \<in> set (R ! i) \<union> set (N ! i).
              0 \<le> c_id c \<and> nat (c_id c) < length ?Vj
            \<and> c_cpoints c = c_cpoints (?Vj ! nat (c_id c)) \<and> c_t c = c_t (?Vj ! nat (c_id c))"
      using relabel_member unfolding R N by blast
    have dist: "distinct (map c_id (R ! i @ N ! i))"
      unfolding map_append idR idN by (auto simp: distinct_map inj_on_def)
    have st: "set (map c_id (R ! i @ N ! i)) = int ` {0..<length ?Vj}"
      unfolding map_append idR idN by auto
    from mem dist st show ?thesis by blast
  qed
  have pos: "\<forall>j p. i \<le> j \<and> int j < int i + w \<and> p < length (K ! j) \<longrightarrow>
            ?Vj ! window_id K i j p = K ! j ! p
          \<and> (\<exists>c \<in> set (R ! i) \<union> set (N ! i). c_id c = int (window_id K i j p)
                \<and> c_cpoints c = c_cpoints (K ! j ! p) \<and> c_t c = c_t (K ! j ! p))"
  proof (intro allI impI)
    fix j p assume "i \<le> j \<and> int j < int i + w \<and> p < length (K ! j)"
    then have j: "i \<le> j" "int j < int i + w" "p < length (K ! j)" by simp_all
    note q = window_at_position[OF iw j]
    from rewrapped_in_window[OF win q(1)] obtain c where
      "c \<in> set (R ! i) \<union> set (N ! i)" "c_id c = int (window_id K i j p)"
      "c_cpoints c = c_cpoints (?Vj ! window_id K i j p)" "c_t c = c_t (?Vj ! window_id K i j p)"
      by blast
    then have "\<exists>c \<in> set (R ! i) \<union> set (N ! i). c_id c = int (window_id K i j p)
                \<and> c_cpoints c = c_cpoints (K ! j ! p) \<and> c_t c = c_t (K ! j ! p)"
      unfolding q(2) by blast
    with q(2) show "?Vj ! window_id K i j p = K ! j ! p
          \<and> (\<exists>c \<in> set (R ! i) \<union> set (N ! i). c_id c = int (window_id K i j p)
                \<and> c_cpoints c = c_cpoints (K ! j ! p) \<and> c_t c = c_t (K ! j ! p))" by (rule conjI)
  qed
  have shift: "\<forall>i' j p. i \<le> i' \<and> i' \<le> j \<and> int j < int i + w \<longrightarrow>
            window_id K i j p = window_id K i' j p + length (concat (take (i' - i) (drop i K)))
          \<and> (window_id K i j p = window_id K i' j p
               \<longleftrightarrow> (\<forall>k. i \<le> k \<and> k < i' \<longrightarrow> K ! k = []))"
  proof (intro allI impI)
    fix i' j p assume "i \<le> i' \<and> i' \<le> j \<and> int j < int i + w"
    then have a: "i \<le> i'" "i' \<le> j" and "int j < int i + w" by simp_all
    then have jl: "j < length K" using iw by linarith
    show "window_id K i j p = window_id K i' j p + length (concat (take (i' - i) (drop i K)))
          \<and> (window_id K i j p = window_id K i' j p
               \<longleftrightarrow> (\<forall>k. i \<le> k \<and> k < i' \<longrightarrow> K ! k = []))"
      by (intro conjI window_id_shift[OF a jl])
  qed
  note o1 = old[THEN conjunct1] and o2 = old[THEN conjunct2, THEN conjunct1]
    and o3 = old[THEN conjunct2, THEN conjunct2]
  show ?thesis
    by (rule conjI, rule o1, rule conjI, rule o2, rule conjI, rule o3, rule conjI, rule pos, rule shift)
qed

lemma g_clustering_BC: "g_clustering pair_fit G_ABC = Inr K_BC"
  by (simp add: g_clustering_def G_ABC_def pair_fit_def enumerate_eq_zip upt_rec py_nth_def
      Cluster_init_def centroid_def K_BC_def cl_B_def cl_C_def)

lemma windows_BC:
  "window_at K_BC 2 0 = [cl_B\<lparr>c_id := 0\<rparr>]"
  "window_at K_BC 2 1 = [cl_B\<lparr>c_id := 0\<rparr>, cl_C\<lparr>c_id := 1\<rparr>]"
  by (simp_all add: window_at_def py_range_def K_BC_def upto_0_1)

lemma v_window_B:
  "v_window west_fit [cl_B\<lparr>c_id := 0\<rparr>] = Inr ([], [cl_B\<lparr>c_id := 0, c_c := Some (- 1)\<rparr>])"
  by (simp add: v_window_def west_fit_def cl_B_def py_nth_def Cluster_init_def centroid_def
      enumerate_eq_zip upt_rec)

lemma v_window_BC_ids:
  "v_window west_fit [cl_B\<lparr>c_id := 0\<rparr>, cl_C\<lparr>c_id := 1\<rparr>]
     = Inr ([cl_C\<lparr>c_id := 1, c_c := Some 0\<rparr>], [cl_B\<lparr>c_id := 0, c_c := Some (- 1)\<rparr>])"
  by (simp add: v_window_def west_fit_def cl_C_def cl_B_def py_nth_def Cluster_init_def centroid_def
      enumerate_eq_zip upt_rec)

lemma v_clustering_BC: "v_clustering west_fit 2 K_BC = Inr (R_BC, N_BC)"
proof -
  have "py_range 0 (int (length K_BC) - 2 + 1) = [0, 1]"
    by (simp add: py_range_def K_BC_def upto_0_1)
  then show ?thesis
    by (simp add: v_clustering_def windows_BC v_window_B v_window_BC_ids R_BC_def N_BC_def)
qed

text \<open>Claim C10 as stated fails in its last clause. With an estimator that needs two points
  for a cluster, the first partition of \<open>trajs_ABC\<close> has no cluster, and cluster \<open>B\<close> is at
  position 0 of both windows: it has the id 0 in \<open>N[0]\<close> and in \<open>N[1]\<close>, which is also the id
  the pass over the partitions gave it.\<close>

theorem same_cluster_same_id_counterexample:
  "STC_fit pair_fit west_fit 10 2 trajs_ABC = Inr (R_BC, N_BC)
   \<and> g_clustering pair_fit G_ABC = Inr K_BC
   \<and> map c_id (concat K_BC) = [0, 1]
   \<and> map c_cpoints (concat K_BC) = [c_cpoints cl_B, c_cpoints cl_C]
   \<and> map c_id (N_BC ! 0) = [0] \<and> map c_cpoints (N_BC ! 0) = [c_cpoints cl_B]
   \<and> map c_id (N_BC ! 1) = [0] \<and> map c_cpoints (N_BC ! 1) = [c_cpoints cl_B]"
proof -
  have "STC_fit pair_fit west_fit 10 2 trajs_ABC = Inr (R_BC, N_BC)"
    unfolding STC_fit_def
    by (simp only: create_G_ABC g_clustering_BC v_clustering_BC sum.case)
  then show ?thesis
    by (simp add: g_clustering_BC K_BC_def N_BC_def)
qed

text \<open>The amended claim at both windows of \<open>K_ABC\<close> and of \<open>K_BC\<close>. In \<open>K_ABC\<close> the ids of the
  pass over the partitions are 0, 1, 2; both windows use the ids 0 and 1; cluster \<open>B\<close>
  (partition 1, position 0) has id 1 in window 0 and id 0 in window 1, one less because
  partition 0 holds one cluster, and cluster \<open>C\<close>, whose own id is 2, has id 1 in window 1.
  In \<open>K_BC\<close> partition 0 is empty and \<open>B\<close> has id 0 in both windows.\<close>

theorem window_ids_are_positions_witness:
  "v_clustering west_fit 2 K_ABC = Inr (R_ABC, N_ABC)
   \<and> (0::nat) < length R_ABC \<and> (1::nat) < length R_ABC
   \<and> map c_id (concat K_ABC) = [0, 1, 2]
   \<and> set (map c_id (R_ABC ! 0 @ N_ABC ! 0)) = {0, 1}
   \<and> set (map c_id (R_ABC ! 1 @ N_ABC ! 1)) = {0, 1}
   \<and> map c_id (N_ABC ! 0) = [1] \<and> map c_cpoints (N_ABC ! 0) = [c_cpoints cl_B]
   \<and> map c_id (N_ABC ! 1) = [0] \<and> map c_cpoints (N_ABC ! 1) = [c_cpoints cl_B]
   \<and> map c_id (R_ABC ! 1) = [1] \<and> map c_cpoints (R_ABC ! 1) = [c_cpoints cl_C]
   \<and> K_ABC ! 1 ! 0 = cl_B
   \<and> window_id K_ABC 0 1 0 = 1 \<and> window_id K_ABC 1 1 0 = 0
   \<and> window_at K_ABC 2 (int 0) ! window_id K_ABC 0 1 0 = cl_B
   \<and> window_at K_ABC 2 (int 1) ! window_id K_ABC 1 1 0 = cl_B
   \<and> length (concat (take (1 - 0) (drop 0 K_ABC))) = 1
   \<and> v_clustering west_fit 2 K_BC = Inr (R_BC, N_BC) \<and> (0::nat) < length R_BC
   \<and> K_BC ! 0 = []
   \<and> window_id K_BC 0 1 0 = window_id K_BC 1 1 0
   \<and> map c_id (N_BC ! 0) = [0] \<and> map c_id (N_BC ! 1) = [0]"
proof -
  have l: "(0::nat) < length R_ABC" "(1::nat) < length R_ABC" "(0::nat) < length R_BC"
    by (simp_all add: R_ABC_def R_BC_def)
  have w: "length (window_at K_ABC 2 (int 0)) = 2" "length (window_at K_ABC 2 (int 1)) = 2"
    using windows_ABC by simp_all
  have s: "int ` {0..<2::nat} = {0, 1}" by (auto simp: image_def)
  note T0 = window_ids_are_positions[OF v_clustering_ABC l(1)]
  note T1 = window_ids_are_positions[OF v_clustering_ABC l(2)]
  note TB = window_ids_are_positions[OF v_clustering_BC l(3)]
  have ids: "set (map c_id (R_ABC ! 0 @ N_ABC ! 0)) = {0, 1}"
       "set (map c_id (R_ABC ! 1 @ N_ABC ! 1)) = {0, 1}"
    using T0[THEN conjunct2, THEN conjunct2, THEN conjunct1]
      T1[THEN conjunct2, THEN conjunct2, THEN conjunct1]
    unfolding w s by simp_all
  have kb: "K_ABC ! 1 ! 0 = cl_B" "K_BC ! 0 = []" by (simp_all add: K_ABC_def K_BC_def)
  have wid: "window_id K_ABC 0 1 0 = 1" "window_id K_ABC 1 1 0 = 0"
    "length (concat (take (1 - 0) (drop 0 K_ABC))) = 1"
    by (simp_all add: window_id_def K_ABC_def)
  have h0: "(0::nat) \<le> 1 \<and> int 1 < int 0 + 2 \<and> (0::nat) < length (K_ABC ! 1)"
    by (simp add: K_ABC_def)
  have h1: "(1::nat) \<le> 1 \<and> int 1 < int 1 + 2 \<and> (0::nat) < length (K_ABC ! 1)"
    by (simp add: K_ABC_def)
  from T0[THEN conjunct2, THEN conjunct2, THEN conjunct2, THEN conjunct1, THEN spec, THEN spec,
      THEN mp, OF h0, THEN conjunct1]
  have p0: "window_at K_ABC 2 (int 0) ! window_id K_ABC 0 1 0 = cl_B" unfolding kb(1) .
  from T1[THEN conjunct2, THEN conjunct2, THEN conjunct2, THEN conjunct1, THEN spec, THEN spec,
      THEN mp, OF h1, THEN conjunct1]
  have p1: "window_at K_ABC 2 (int 1) ! window_id K_ABC 1 1 0 = cl_B" unfolding kb(1) .
  have hs: "(0::nat) \<le> 1 \<and> (1::nat) \<le> 1 \<and> int 1 < int 0 + 2" by simp
  have emp: "\<forall>k. 0 \<le> k \<and> k < (1::nat) \<longrightarrow> K_BC ! k = []" using kb(2) by simp
  from TB[THEN conjunct2, THEN conjunct2, THEN conjunct2, THEN conjunct2, THEN spec, THEN spec,
      THEN spec, THEN mp, OF hs, THEN conjunct2, THEN iffD2, OF emp]
  have same: "window_id K_BC 0 1 0 = window_id K_BC 1 1 0" .
  have f: "map c_id (concat K_ABC) = [0, 1, 2]"
    "map c_id (N_ABC ! 0) = [1]" "map c_cpoints (N_ABC ! 0) = [c_cpoints cl_B]"
    "map c_id (N_ABC ! 1) = [0]" "map c_cpoints (N_ABC ! 1) = [c_cpoints cl_B]"
    "map c_id (R_ABC ! 1) = [1]" "map c_cpoints (R_ABC ! 1) = [c_cpoints cl_C]"
    "map c_id (N_BC ! 0) = [0]" "map c_id (N_BC ! 1) = [0]"
    by (simp_all add: R_ABC_def N_ABC_def N_BC_def K_ABC_def cl_A_def cl_B_def cl_C_def)
  show ?thesis
    by (intro conjI v_clustering_ABC l ids f kb wid p0 p1 v_clustering_BC same)
qed

subsection \<open>Hot-spot analysis: scoring one cluster\<close>

lemma score_Inr:
  assumes "score D a Vj x_bar S h r1 = Inr h1"
  shows "\<exists>acc gi c. weighted_sums D h (h ! r1) Vj (0, 0, 0) = Inr acc
           \<and> gi_star (length Vj) x_bar S acc = Inr gi \<and> critical_value a = Inr c
           \<and> h1 = h[r1 := mark gi c ((h ! r1)\<lparr>gc_gi := Some gi\<rparr>)]"
  using assms by (auto simp: score_def split: sum.splits)

subsection \<open>Hot-spot analysis: degenerate windows\<close>

lemma weighted_sums_total:
  assumes "\<forall>r \<in> set rs. \<exists>z wt. lag g1 (h ! r) = Inr z \<and> weight D z g1 (h ! r) = Inr wt"
  shows "\<exists>acc'. weighted_sums D h g1 rs (swx, sw, sw2) = Inr acc'"
  using assms
proof (induction rs arbitrary: swx sw sw2)
  case Nil
  then show ?case by simp
next
  case (Cons r rs)
  from Cons.prems obtain z wt where
    zw: "lag g1 (h ! r) = Inr z" "weight D z g1 (h ! r) = Inr wt" by auto
  from Cons.IH[of "swx + wt * real_of_int (gc_x (h ! r))" "sw + wt" "sw2 + wt\<^sup>2"] Cons.prems
  obtain acc' where "weighted_sums D h g1 rs
      (swx + wt * real_of_int (gc_x (h ! r)), sw + wt, sw2 + wt\<^sup>2) = Inr acc'" by auto
  then have "weighted_sums D h g1 (r # rs) (swx, sw, sw2) = Inr acc'" using zw by simp
  then show ?case by blast
qed

text \<open>The formula on a degenerate window, for any values of the three sums: the sums are
  accumulated in floating point, and nothing is assumed of how they were rounded.\<close>

lemma gi_star_degenerate:
  assumes "n = 1 \<or> S = 0"
  shows "gi_star n x_bar S (swx, sw, sw2) =
     (if n = 1 then Inl ZeroDivisionError
      else if (real n * sw2 - sw\<^sup>2) / (real n - 1) < 0 then Inl (ValueError MathDomain)
      else Inl ZeroDivisionError)"
proof (cases "n = 1")
  case True
  then show ?thesis by (simp add: gi_star_def py_div_def)
next
  case False
  with assms have S: "S = 0" by simp
  from False have n: "real n - 1 \<noteq> 0" by simp
  show ?thesis using False n unfolding S by (simp add: gi_star_def py_div_def py_sqrt_def)
qed

lemma equal_features_S:
  assumes "Vj \<noteq> []" and "\<forall>r \<in> set Vj. gc_x (h ! r) = x0"
  shows "real_of_int (sum_list (map (\<lambda>r. (gc_x (h ! r))\<^sup>2) Vj)) / real (length Vj)
           - (real_of_int (sum_list (map (\<lambda>r. gc_x (h ! r)) Vj)) / real (length Vj))\<^sup>2 = 0"
proof -
  have a: "map (\<lambda>r. gc_x (h ! r)) Vj = replicate (length Vj) x0"
    using assms(2) by (simp add: map_replicate_const[symmetric] cong: map_cong)
  have b: "map (\<lambda>r. (gc_x (h ! r))\<^sup>2) Vj = replicate (length Vj) (x0\<^sup>2)"
    using assms(2) by (simp add: map_replicate_const[symmetric] cong: map_cong)
  have n: "real (length Vj) \<noteq> 0" using assms(1) by simp
  show ?thesis unfolding a b using n by (simp add: sum_list_replicate power2_eq_square)
qed

lemma degenerate_equal:
  assumes "degenerate h Vj"
  shows "Vj \<noteq> []" and "\<forall>r \<in> set Vj. gc_x (h ! r) = gc_x (h ! hd Vj)"
proof -
  from assms show ne: "Vj \<noteq> []" by (simp add: degenerate_def)
  then obtain v vs where V: "Vj = v # vs" by (cases Vj) auto
  from assms V show "\<forall>r \<in> set Vj. gc_x (h ! r) = gc_x (h ! hd Vj)"
    by (cases vs) (auto simp: degenerate_def)
qed

lemma getis_window_degenerate:
  assumes "degenerate h Vj"
  shows "\<exists>e. getis_window D a h Vj = Inl e
          \<and> ((\<forall>r \<in> set Vj. \<exists>z wt. lag (h ! hd Vj) (h ! r) = Inr z
                                  \<and> weight D z (h ! hd Vj) (h ! r) = Inr wt)
               \<longrightarrow> (e = ZeroDivisionError \<or> e = ValueError MathDomain)
                 \<and> (length Vj = 1 \<longrightarrow> e = ZeroDivisionError))"
proof -
  note ne = degenerate_equal(1)[OF assms] and alleq = degenerate_equal(2)[OF assms]
  from ne obtain v vs where V: "Vj = v # vs" by (cases Vj) auto
  have hdv: "hd Vj = v" unfolding V by simp
  let ?xb = "real_of_int (sum_list (map (\<lambda>r. gc_x (h ! r)) Vj)) / real (length Vj)"
  let ?ok = "\<forall>r \<in> set Vj. \<exists>z wt. lag (h ! hd Vj) (h ! r) = Inr z
                                  \<and> weight D z (h ! hd Vj) (h ! r) = Inr wt"
  have S: "py_sqrt (real_of_int (sum_list (map (\<lambda>r. (gc_x (h ! r))\<^sup>2) Vj)) / real (length Vj) - ?xb\<^sup>2)
             = Inr 0"
    unfolding equal_features_S[OF ne alleq] by (simp add: py_sqrt_def)
  have gw: "getis_window D a h Vj = score_all D a Vj ?xb 0 Vj h"
    using ne S by (simp add: getis_window_def Let_def)
  have sa: "score D a Vj ?xb 0 h v = Inl e \<Longrightarrow> score_all D a Vj ?xb 0 Vj h = Inl e" for e
    by (subst (2) V) simp
  have "\<exists>e. score D a Vj ?xb 0 h v = Inl e
          \<and> (?ok \<longrightarrow> (e = ZeroDivisionError \<or> e = ValueError MathDomain)
                   \<and> (length Vj = 1 \<longrightarrow> e = ZeroDivisionError))"
  proof (cases "weighted_sums D h (h ! v) Vj (0, 0, 0)")
    case (Inl e)
    have "\<not> ?ok"
    proof
      assume ?ok
      from weighted_sums_total[OF this, of 0 0 0] Inl show False unfolding hdv by simp
    qed
    moreover from Inl have "score D a Vj ?xb 0 h v = Inl e" by (simp add: score_def)
    ultimately show ?thesis by blast
  next
    case (Inr acc)
    obtain swx sw sw2 where a3: "acc = (swx, sw, sw2)" by (metis prod_cases3)
    let ?e = "if length Vj = 1 then ZeroDivisionError
              else if (real (length Vj) * sw2 - sw\<^sup>2) / (real (length Vj) - 1) < 0
                   then ValueError MathDomain else ZeroDivisionError"
    have "gi_star (length Vj) ?xb 0 (swx, sw, sw2) = Inl ?e"
      by (subst gi_star_degenerate) simp_all
    then have "score D a Vj ?xb 0 h v = Inl ?e" using Inr a3 by (simp add: score_def)
    moreover have "?e = ZeroDivisionError \<or> ?e = ValueError MathDomain" by simp
    moreover have "length Vj = 1 \<longrightarrow> ?e = ZeroDivisionError" by simp
    ultimately show ?thesis by blast
  qed
  then obtain e where e: "score D a Vj ?xb 0 h v = Inl e"
    and c: "?ok \<longrightarrow> (e = ZeroDivisionError \<or> e = ValueError MathDomain)
                   \<and> (length Vj = 1 \<longrightarrow> e = ZeroDivisionError)" by blast
  from sa[OF e] have "getis_window D a h Vj = Inl e" unfolding gw .
  with c show ?thesis by blast
qed

text \<open>Scoring assigns \<open>gi\<close>, \<open>significant\<close> and \<open>spot\<close> only: the feature values stay.\<close>

lemma score_keeps_x:
  assumes "score D a Vj x_bar S h r1 = Inr h1"
  shows "gc_x (h1 ! r) = gc_x (h ! r)"
proof -
  from score_Inr[OF assms] obtain gi c where
    h1: "h1 = h[r1 := mark gi c ((h ! r1)\<lparr>gc_gi := Some gi\<rparr>)]" by blast
  have m: "gc_x (mark gi c ((h ! r1)\<lparr>gc_gi := Some gi\<rparr>)) = gc_x (h ! r1)"
    by (simp add: mark_def)
  show ?thesis
  proof (cases "r = r1 \<and> r1 < length h")
    case True
    then show ?thesis unfolding h1 using m by simp
  next
    case False
    show ?thesis
    proof (cases "r = r1")
      case True
      with False have "length h \<le> r1" by simp
      then show ?thesis unfolding h1 by (simp only: list_update_beyond)
    next
      case neq: False
      then show ?thesis unfolding h1 by simp
    qed
  qed
qed

lemma score_all_keeps_x:
  "score_all D a Vj x_bar S rs h = Inr h1 \<Longrightarrow> gc_x (h1 ! r) = gc_x (h ! r)"
proof (induction rs arbitrary: h)
  case Nil
  then show ?case by simp
next
  case (Cons r1 rs)
  from Cons.prems obtain h2 where s: "score D a Vj x_bar S h r1 = Inr h2"
    and r: "score_all D a Vj x_bar S rs h2 = Inr h1"
    by (cases "score D a Vj x_bar S h r1") simp_all
  from Cons.IH[OF r] score_keeps_x[OF s] show ?case by simp
qed

lemma getis_window_keeps_x:
  assumes "getis_window D a h Vj = Inr h1"
  shows "gc_x (h1 ! r) = gc_x (h ! r)"
proof (cases "Vj = []")
  case True
  with assms show ?thesis by (simp add: getis_window_def)
next
  case False
  let ?xb = "real_of_int (sum_list (map (\<lambda>r. gc_x (h ! r)) Vj)) / real (length Vj)"
  let ?v = "real_of_int (sum_list (map (\<lambda>r. (gc_x (h ! r))\<^sup>2) Vj)) / real (length Vj) - ?xb\<^sup>2"
  have gw: "getis_window D a h Vj
      = (case py_sqrt ?v of Inl e \<Rightarrow> Inl e | Inr S \<Rightarrow> score_all D a Vj ?xb S Vj h)"
    using False by (simp add: getis_window_def Let_def)
  from assms obtain S where "score_all D a Vj ?xb S Vj h = Inr h1"
    unfolding gw by (cases "py_sqrt ?v") simp_all
  then show ?thesis by (rule score_all_keeps_x)
qed

lemma degenerate_cong:
  assumes "\<forall>r. gc_x (h1 ! r) = gc_x (h ! r)"
  shows "degenerate h1 Vj = degenerate h Vj"
  using assms by (simp add: degenerate_def)

lemma getis_loop_nondegenerate:
  "getis_loop D a w GC js V0 h = Inr (V, h') \<Longrightarrow>
     (\<forall>j \<in> set js. \<not> degenerate h (window_at GC w j)) \<and> (\<forall>r. gc_x (h' ! r) = gc_x (h ! r))"
proof (induction js arbitrary: V0 h)
  case Nil
  then show ?case by simp
next
  case (Cons j js)
  from Cons.prems obtain h2 where
    w: "getis_window D a h (window_at GC w j) = Inr h2" and
    l: "getis_loop D a w GC js (V0 @ [window_at GC w j]) h2 = Inr (V, h')"
    by (cases "getis_window D a h (window_at GC w j)") simp_all
  have k: "\<forall>r. gc_x (h2 ! r) = gc_x (h ! r)" using getis_window_keeps_x[OF w] by simp
  from Cons.IH[OF l] have
    a: "\<forall>j \<in> set js. \<not> degenerate h2 (window_at GC w j)" and
    b: "\<forall>r. gc_x (h' ! r) = gc_x (h2 ! r)" by simp_all
  have "\<not> degenerate h (window_at GC w j)"
  proof
    assume "degenerate h (window_at GC w j)"
    from getis_window_degenerate[OF this, of D a] w show False by auto
  qed
  moreover have "\<forall>j \<in> set js. \<not> degenerate h (window_at GC w j)"
    using a degenerate_cong[OF k] by simp
  moreover have "\<forall>r. gc_x (h' ! r) = gc_x (h ! r)" using b k by simp
  ultimately show ?case by simp
qed

text \<open>Claim C3, as amended. The code guards \<open>n = 0\<close> only. When the window that starts at
  partition \<open>i\<close> is degenerate, its computation raises, whatever \<open>a\<close> is, and the window loop
  ends with that error: no \<open>Gi*\<close> and no classification is produced. When the timestamps
  and the distances for the first cluster are available (as they are in the pipeline), the
  error is \<^verbatim>\<open>ZeroDivisionError\<close> or the \<^verbatim>\<open>ValueError\<close> of \<^verbatim>\<open>math.sqrt\<close>, and with one cluster
  it is \<^verbatim>\<open>ZeroDivisionError\<close>. Hence no window of a run that returns is degenerate. The
  formula itself, for any values of the sums: with \<open>n = 1\<close> it divides by \<open>n - 1 = 0\<close>; with
  \<open>S = 0\<close> it raises \<^verbatim>\<open>ValueError\<close> when the quotient under the square root is negative
  (which exact sums never give, and rounded sums can), and divides by \<open>S * sqrt(...) = 0\<close>
  otherwise.\<close>

theorem degenerate_window_raises:
  "(degenerate h (window_at GC w i) \<longrightarrow>
      (\<exists>e. getis_window D a h (window_at GC w i) = Inl e
          \<and> getis_loop D a w GC (i # rest) V0 h = Inl e
          \<and> ((\<forall>r \<in> set (window_at GC w i).
                 \<exists>z wt. lag (h ! hd (window_at GC w i)) (h ! r) = Inr z
                       \<and> weight D z (h ! hd (window_at GC w i)) (h ! r) = Inr wt)
               \<longrightarrow> (e = ZeroDivisionError \<or> e = ValueError MathDomain)
                 \<and> (length (window_at GC w i) = 1 \<longrightarrow> e = ZeroDivisionError))))
   \<and> (calculate_getis_ord hav w a GC h = Inr (V, h') \<longrightarrow>
        (\<forall>Vj \<in> set V. \<not> degenerate h Vj \<and> \<not> degenerate h' Vj))
   \<and> (n = 1 \<or> S = 0 \<longrightarrow>
        gi_star n x_bar S (swx, sw, sw2) =
          (if n = 1 then Inl ZeroDivisionError
           else if (real n * sw2 - sw\<^sup>2) / (real n - 1) < 0 then Inl (ValueError MathDomain)
           else Inl ZeroDivisionError))"
proof -
  have p1: "degenerate h (window_at GC w i) \<longrightarrow>
      (\<exists>e. getis_window D a h (window_at GC w i) = Inl e
          \<and> getis_loop D a w GC (i # rest) V0 h = Inl e
          \<and> ((\<forall>r \<in> set (window_at GC w i).
                 \<exists>z wt. lag (h ! hd (window_at GC w i)) (h ! r) = Inr z
                       \<and> weight D z (h ! hd (window_at GC w i)) (h ! r) = Inr wt)
               \<longrightarrow> (e = ZeroDivisionError \<or> e = ValueError MathDomain)
                 \<and> (length (window_at GC w i) = 1 \<longrightarrow> e = ZeroDivisionError)))"
  proof
    assume "degenerate h (window_at GC w i)"
    from getis_window_degenerate[OF this, of D a] obtain e where
      e: "getis_window D a h (window_at GC w i) = Inl e" and
      c: "(\<forall>r \<in> set (window_at GC w i).
                 \<exists>z wt. lag (h ! hd (window_at GC w i)) (h ! r) = Inr z
                       \<and> weight D z (h ! hd (window_at GC w i)) (h ! r) = Inr wt)
               \<longrightarrow> (e = ZeroDivisionError \<or> e = ValueError MathDomain)
                 \<and> (length (window_at GC w i) = 1 \<longrightarrow> e = ZeroDivisionError)" by blast
    from e have "getis_loop D a w GC (i # rest) V0 h = Inl e" by simp
    with e c show "\<exists>e. getis_window D a h (window_at GC w i) = Inl e
          \<and> getis_loop D a w GC (i # rest) V0 h = Inl e
          \<and> ((\<forall>r \<in> set (window_at GC w i).
                 \<exists>z wt. lag (h ! hd (window_at GC w i)) (h ! r) = Inr z
                       \<and> weight D z (h ! hd (window_at GC w i)) (h ! r) = Inr wt)
               \<longrightarrow> (e = ZeroDivisionError \<or> e = ValueError MathDomain)
                 \<and> (length (window_at GC w i) = 1 \<longrightarrow> e = ZeroDivisionError))" by blast
  qed
  have p2: "calculate_getis_ord hav w a GC h = Inr (V, h') \<longrightarrow>
        (\<forall>Vj \<in> set V. \<not> degenerate h Vj \<and> \<not> degenerate h' Vj)"
  proof (intro impI ballI)
    fix Vj assume run: "calculate_getis_ord hav w a GC h = Inr (V, h')" and Vj: "Vj \<in> set V"
    note loop = run[unfolded calculate_getis_ord_def]
    from getis_loop_Inr[OF loop] Vj obtain j where
      j: "j \<in> set (py_range 0 (int (length GC) - w + 1))" "Vj = window_at GC w j" by auto
    from getis_loop_nondegenerate[OF loop] j have n: "\<not> degenerate h Vj"
      and k: "\<forall>r. gc_x (h' ! r) = gc_x (h ! r)" by simp_all
    from n degenerate_cong[OF k] show "\<not> degenerate h Vj \<and> \<not> degenerate h' Vj" by simp
  qed
  have p3: "n = 1 \<or> S = 0 \<longrightarrow>
        gi_star n x_bar S (swx, sw, sw2) =
          (if n = 1 then Inl ZeroDivisionError
           else if (real n * sw2 - sw\<^sup>2) / (real n - 1) < 0 then Inl (ValueError MathDomain)
           else Inl ZeroDivisionError)"
    using gi_star_degenerate by blast
  show ?thesis by (rule conjI, rule p1, rule conjI, rule p2, rule p3)
qed

lemma distance_ABC_1: "calculate_distance haversine 1 [g_A, g_B, g_C] GC_ABC = D_ABC_1"
proof -
  have r: "py_range 0 1 = [0]" "py_range 1 2 = [1]" "py_range 2 3 = [2]"
    by (simp_all add: py_range_def upto.simps)
  have u: "[0..<3] = [0, 1, 2]" by (simp add: upt_rec)
  have i: "gc_id g_A = 0" "gc_id g_B = 1" "gc_id g_C = 2" by (simp_all add: g_A_def g_B_def g_C_def)
  show ?thesis
    by (simp add: calculate_distance_def GC_ABC_def u r latlon_ABC haversine_same i D_ABC_1_def)
qed

lemma window_ABC_1: "window_at GC_ABC 1 0 = [0]"
  by (simp add: window_at_def py_range_def GC_ABC_def upto.simps)

lemma range_ABC_1: "py_range 0 (int (length GC_ABC) - 1 + 1) = [0, 1, 2]"
  by (simp add: py_range_def GC_ABC_def upto.simps)

lemma single_cluster_ok:
  "\<forall>r \<in> set [0::nat]. \<exists>z wt. lag ([g_A, g_B, g_C] ! hd [0]) ([g_A, g_B, g_C] ! r) = Inr z
       \<and> weight D_ABC_1 z ([g_A, g_B, g_C] ! hd [0]) ([g_A, g_B, g_C] ! r) = Inr wt"
  by (simp add: lag_def weight_def lookup2_def D_ABC_1_def g_A_def)

lemma getis_window_ABC_1:
  "getis_window D_ABC_1 a [g_A, g_B, g_C] [0] = Inl ZeroDivisionError"
proof -
  have d: "degenerate [g_A, g_B, g_C] [0]" by (simp add: degenerate_def)
  from getis_window_degenerate[OF d, of D_ABC_1 a] single_cluster_ok
  show ?thesis by auto
qed

lemma getis_ord_ABC_1:
  "calculate_getis_ord haversine 1 a GC_ABC [g_A, g_B, g_C] = Inl ZeroDivisionError"
  unfolding calculate_getis_ord_def distance_ABC_1 range_ABC_1
  by (simp only: getis_loop.simps window_ABC_1 getis_window_ABC_1 sum.case)

text \<open>Claim C3 as stated fails: the run on \<open>trajs_ABC\<close> with \<open>w = 1\<close>, where every window
  holds one cluster, raises \<^verbatim>\<open>ZeroDivisionError\<close>.\<close>

theorem degenerate_window_counterexample:
  "STHS_fit one_cluster_fit haversine 10 1 trajs_ABC 0.05 = Inl ZeroDivisionError"
  unfolding STHS_fit_def
  by (simp only: create_G_ABC g_clustering_ABC create_getis_clusters_ABC getis_ord_ABC_1
      sum.case prod.case)

lemma create_G_AB1: "create_G 10 [tr_A, tr_B] = Inr G_AB1"
proof -
  have "[0..<2] = [0, 1]" by (simp add: upt_rec)
  then show ?thesis
    by (simp add: create_G_def py_range3_def tr_A_def tr_B_def Trajectory_init_def G_AB1_def)
qed

lemma g_clustering_AB1: "g_clustering one_cluster_fit G_AB1 = Inr [[cl_A], [cl_B1]]"
  by (simp add: g_clustering_def G_AB1_def one_cluster_fit_def enumerate_eq_zip upt_rec py_nth_def
      Cluster_init_def centroid_def cl_A_def cl_B1_def)

lemma create_getis_clusters_AB1:
  "create_getis_clusters [[cl_A], [cl_B1]] = Inr ([[0], [1]], [g_A, g_B1])"
  by (simp add: create_getis_clusters_def GetisCluster_init_def
      cl_A_def cl_B1_def g_A_def g_B1_def centroid_def)

lemma distance_AB1: "calculate_distance haversine 2 [g_A, g_B1] [[0], [1]] = D_AB1"
proof -
  have r: "py_range 0 2 = [0, 1]" "py_range 1 3 = [1, 2]"
    by (simp_all add: py_range_def upto_0_1)
  have u: "[0..<2] = [0, 1]" by (simp add: upt_rec)
  have i: "gc_id g_A = 0" "gc_id g_B1 = 1" by (simp_all add: g_A_def g_B1_def)
  have l: "latlon g_B1 = (0, pi)" by (simp add: latlon_def radians_def g_B1_def)
  show ?thesis
    by (simp add: calculate_distance_def u r latlon_ABC l haversine_same haversine_antipodal i D_AB1_def)
qed

lemma window_AB1: "window_at [[0], [1::nat]] 2 0 = [0, 1]"
  by (simp add: window_at_def py_range_def upto_0_1)

lemma sums_AB1:
  "weighted_sums D_AB1 [g_A, g_B1] g_A [0, 1] (0, 0, 0)
     = Inr (1 + exp (- pi), 1 + exp (- pi), 1 + (exp (- pi))\<^sup>2)"
  by (simp add: D_AB1_def g_A_def g_B1_def weight_def lookup2_def lag_def)

lemma mean_AB1:
  "real_of_int (sum_list (map (\<lambda>r. gc_x ([g_A, g_B1] ! r)) [0, 1])) / real (length [0::nat, 1]) = 1"
  by (simp add: g_A_def g_B1_def)

lemma deviation_AB1:
  "py_sqrt (real_of_int (sum_list (map (\<lambda>r. (gc_x ([g_A, g_B1] ! r))\<^sup>2) [0, 1]))
              / real (length [0::nat, 1]) - 1\<^sup>2) = Inr 0"
  by (simp add: g_A_def g_B1_def py_sqrt_def)

text \<open>The amended claim at a window of two clusters with \<open>x = 1\<close> each (a whole run from two
  trajectories, where the quotient under the square root is \<open>(1 - exp(-pi))\<^sup>2\<close>), at a
  window of one cluster, at sums whose quotient is negative, and at the run on \<open>trajs_ABC\<close>
  with \<open>w = 2\<close>, which returns: its windows hold the feature values 1, 2 and 2, 3.\<close>

theorem degenerate_window_raises_witness:
  "STHS_fit one_cluster_fit haversine 10 2 [tr_A, tr_B] 0.05 = Inl ZeroDivisionError
   \<and> create_getis_clusters [[cl_A], [cl_B1]] = Inr ([[0], [1]], [g_A, g_B1])
   \<and> window_at [[0], [1::nat]] 2 0 = [0, 1] \<and> map gc_x [g_A, g_B1] = [1, 1]
   \<and> gi_star 2 1 0 (1 + exp (- pi), 1 + exp (- pi), 1 + (exp (- pi))\<^sup>2) = Inl ZeroDivisionError
   \<and> window_at GC_ABC 1 0 = [0]
   \<and> getis_window (calculate_distance haversine 1 [g_A, g_B, g_C] GC_ABC) 0.05 [g_A, g_B, g_C]
        (window_at GC_ABC 1 0) = Inl ZeroDivisionError
   \<and> gi_star 2 1 0 (2, 2, 2 - 1 / 2 ^ 52) = Inl (ValueError MathDomain)
   \<and> calculate_getis_ord haversine 2 0.05 GC_ABC [g_A, g_B, g_C] = Inr ([[0, 1], [1, 2]], h_ABC_final)
   \<and> map gc_x [g_A, g_B, g_C] = [1, 2, 3]"
proof -
  note T = degenerate_window_raises
  note T3 = T[THEN conjunct2, THEN conjunct2, THEN mp]
  let ?p = "exp (- pi)"
  have x: "map gc_x [g_A, g_B1] = [1, 1]" "map gc_x [g_A, g_B, g_C] = [1, 2, 3]"
    by (simp_all add: g_A_def g_B1_def g_B_def g_C_def)
  \<comment> \<open>two clusters with equal feature values\<close>
  have s0: "(2::nat) = 1 \<or> (0::real) = 0" by simp
  have q: "\<not> (real 2 * (1 + ?p\<^sup>2) - (1 + ?p)\<^sup>2) / (real 2 - 1) < 0"
  proof -
    have "(real 2 * (1 + ?p\<^sup>2) - (1 + ?p)\<^sup>2) / (real 2 - 1) = (1 - ?p)\<^sup>2"
      by (simp add: power2_eq_square algebra_simps)
    then show ?thesis by simp
  qed
  have g2: "gi_star 2 1 0 (1 + ?p, 1 + ?p, 1 + ?p\<^sup>2) = Inl ZeroDivisionError"
    using T3[OF s0, of 1 "1 + ?p" "1 + ?p" "1 + ?p\<^sup>2"] q by simp
  have l2: "length [0::nat, 1] = 2" by simp
  have sc: "score D_AB1 0.05 [0, 1] 1 0 [g_A, g_B1] 0 = Inl ZeroDivisionError"
    unfolding score_def by (simp only: nth_Cons_0 sums_AB1 l2 g2 prod.case sum.case)
  have ne: "(length [0::nat, 1] = 0) = False" by simp
  have gw: "getis_window D_AB1 0.05 [g_A, g_B1] [0, 1] = Inl ZeroDivisionError"
    unfolding getis_window_def Let_def
    by (simp only: ne if_False mean_AB1 deviation_AB1 sum.case score_all.simps sc)
  have r: "py_range 0 (int (length [[0], [1::nat]]) - 2 + 1) = [0]"
    by (simp add: py_range_def upto.simps)
  have "calculate_getis_ord haversine 2 0.05 [[0], [1]] [g_A, g_B1] = Inl ZeroDivisionError"
    unfolding calculate_getis_ord_def distance_AB1 r
    by (simp only: getis_loop.simps window_AB1 gw sum.case)
  then have fit: "STHS_fit one_cluster_fit haversine 10 2 [tr_A, tr_B] 0.05 = Inl ZeroDivisionError"
    unfolding STHS_fit_def
    by (simp only: create_G_AB1 g_clustering_AB1 create_getis_clusters_AB1 sum.case prod.case)
  \<comment> \<open>one cluster\<close>
  have d1: "degenerate [g_A, g_B, g_C] (window_at GC_ABC 1 0)"
    unfolding window_ABC_1 by (simp add: degenerate_def)
  have ok1: "\<forall>r \<in> set (window_at GC_ABC 1 0).
      \<exists>z wt. lag ([g_A, g_B, g_C] ! hd (window_at GC_ABC 1 0)) ([g_A, g_B, g_C] ! r) = Inr z
        \<and> weight D_ABC_1 z ([g_A, g_B, g_C] ! hd (window_at GC_ABC 1 0)) ([g_A, g_B, g_C] ! r) = Inr wt"
    unfolding window_ABC_1 by (rule single_cluster_ok)
  have l1: "length (window_at GC_ABC 1 0) = 1" unfolding window_ABC_1 by simp
  from T[THEN conjunct1, THEN mp, OF d1, of D_ABC_1 "0.05" "[]" "[]"] obtain e where
    e: "getis_window D_ABC_1 0.05 [g_A, g_B, g_C] (window_at GC_ABC 1 0) = Inl e" and
    c: "(\<forall>r \<in> set (window_at GC_ABC 1 0).
      \<exists>z wt. lag ([g_A, g_B, g_C] ! hd (window_at GC_ABC 1 0)) ([g_A, g_B, g_C] ! r) = Inr z
        \<and> weight D_ABC_1 z ([g_A, g_B, g_C] ! hd (window_at GC_ABC 1 0)) ([g_A, g_B, g_C] ! r) = Inr wt)
       \<longrightarrow> (e = ZeroDivisionError \<or> e = ValueError MathDomain)
         \<and> (length (window_at GC_ABC 1 0) = 1 \<longrightarrow> e = ZeroDivisionError)"
    by (elim exE conjE)
  from c[THEN mp, OF ok1, THEN conjunct2, THEN mp, OF l1] e
  have one: "getis_window (calculate_distance haversine 1 [g_A, g_B, g_C] GC_ABC) 0.05 [g_A, g_B, g_C]
        (window_at GC_ABC 1 0) = Inl ZeroDivisionError"
    unfolding distance_ABC_1 by simp
  \<comment> \<open>sums with a negative quotient\<close>
  have qn: "(real 2 * (2 - 1 / 2 ^ 52) - 2\<^sup>2) / (real 2 - 1) < 0" by simp
  have neg: "gi_star 2 1 0 (2, 2, 2 - 1 / 2 ^ 52) = Inl (ValueError MathDomain)"
    using T3[OF s0, of 1 2 2 "2 - 1 / 2 ^ 52"] qn by simp
  show ?thesis
    by (intro conjI fit create_getis_clusters_AB1 window_AB1 x g2 window_ABC_1 one neg getis_ord_ABC)
qed

subsection \<open>Hot-spot analysis: the significance level\<close>









































end
